theory Spec2Isabelle
  imports Main "HOL-Library.Word" "HOL-Library.Multiset"
begin

unbundle bit_operations_syntax

section \<open>Data model of compute-offsets.cpp\<close>

text \<open>
  \<open>std::size_t\<close> and \<open>std::int64_t\<close> are 64-bit machine words: arithmetic wraps, the
  comparisons of \<open>size_t\<close> are unsigned. A symbol is referred to by its address, and the
  maps of the helper are ordered by that address (\<open>SymbolAddressCompare\<close>).
\<close>

type_synonym size_t = "64 word"
type_synonym int64 = "64 word"
type_synonym SymbolRef = nat

datatype error =
    CheckFailed   \<comment> \<open>a \<open>CHECK\<close> or a failed \<open>get<D>()\<close> aborts the compilation\<close>
  | Undefined     \<comment> \<open>an index out of range, or an empty optional or null pointer dereferenced\<close>
  | NoReturn      \<comment> \<open>a recursion that never returns\<close>

record SizeAndAlignment =
  sa_size :: size_t
  sa_alignment :: size_t

record EquivalenceObject =
  eo_symbol :: SymbolRef
  subscripts :: "int64 list"
  substringStart :: "int64 option"
  eo_source :: string

record SymbolAndOffset =
  sao_symbol :: SymbolRef
  sao_offset :: size_t
  sao_object :: EquivalenceObject

text \<open>One dimension of an \<open>ArraySpec\<close>: what \<open>ToInt64(shape[i].lbound().GetExplicit())\<close>
  and the same for \<open>ubound\<close> give.\<close>

record ShapeSpec =
  lbound :: "int64 option"
  ubound :: "int64 option"

datatype TypeCategory = Integer | Real | Complex | Character | Logical

text \<open>A \<open>DeclTypeSpec\<close>: an intrinsic type with its category and \<open>ToInt64(kind())\<close>, a
  derived type with the symbols its \<open>DirectComponentIterator\<close> visits, or anything else.\<close>

datatype DeclTypeSpec =
    Intrinsic TypeCategory "int64 option"
  | Derived "SymbolRef list"
  | OtherType

datatype Details =
  ObjectEntityDetails | ProcEntityDetails | GenericDetails | CommonBlockDetails | MiscDetails

text \<open>What \<open>TypeAndShape::Characterize\<close> gives for a symbol: \<open>ToInt64\<close> of its
  \<open>MeasureSizeInBytes\<close> and of its aligned \<open>MeasureElementSizeInBytes\<close>, and the
  alignment of its type on the target.\<close>

record TypeAndShape =
  sizeInBytes :: "int64 option"
  elementSizeInBytes :: "int64 option"
  typeAlignment :: size_t

text \<open>
  A \<open>Symbol\<close>: the fields this file reads and writes. \<open>shape\<close> and \<open>sym_commonBlock\<close>
  belong to \<open>ObjectEntityDetails\<close>, \<open>specific\<close> to \<open>GenericDetails\<close>, \<open>objects\<close> and
  \<open>cb_alignment\<close> to \<open>CommonBlockDetails\<close>. The answers of the type and descriptor
  services about the symbol (\<open>IsDescriptor\<close>, \<open>MaxDescriptorSizeInBytes\<close>,
  \<open>IsProcedurePointer\<close>, \<open>IsProcedure\<close>, \<open>Characterize\<close>) are fields too, and
  \<open>ownerIsBindC\<close> says that the owner of the symbol is a derived type with \<open>BIND(C)\<close>.
\<close>

record Symbol =
  sym_name :: string
  sym_size :: size_t
  sym_offset :: size_t
  details :: Details
  ultimate :: SymbolRef
  declType :: "DeclTypeSpec option"
  shape :: "ShapeSpec list"
  sym_commonBlock :: "SymbolRef option"
  specific :: "SymbolRef option"
  objects :: "SymbolRef list"
  cb_alignment :: size_t
  isDescriptor :: bool
  maxDescriptorSize :: size_t
  isProcedurePointer :: bool
  isProcedure :: bool
  characterize :: "TypeAndShape option"
  ownerIsBindC :: bool

datatype Message =
    CommonBlockPadding string string size_t string
    \<comment> \<open>site, block, bytes of padding, member\<close>
  | StorageAssociatedElsewhere string string string string
    \<comment> \<open>site, member, base, block\<close>
  | DifferentCommonBlocks string string string string string
    \<comment> \<open>site, member, block, base, block of the base\<close>
  | CannotBackwardExtend string string string string
    \<comment> \<open>site, member, block, base\<close>
  | SameFirstStorageUnit string string string string
    \<comment> \<open>source of the base object, both designators, source of the attached note\<close>
  | SameFirstStorageUnitOffsets string string size_t size_t string
    \<comment> \<open>source of the base object, symbol, both offsets, source of the attached note\<close>

text \<open>
  The target and the folding services, read only: the \<open>TargetCharacteristics\<close>, the
  default character kind (an \<open>int\<close>), whether the default target triple is AIX, and
  the text of \<open>OffsetToDesignator(symbol, offset, 1)\<close> when it gives a designator.
\<close>

record Target =
  maxAlignment :: size_t
  descriptorAlignment :: size_t
  procedurePointerByteSize :: size_t
  procedurePointerAlignment :: size_t
  defaultCharacterKind :: "32 word"
  isAIX :: bool
  OffsetToDesignator :: "SymbolRef \<Rightarrow> size_t \<Rightarrow> string option"

text \<open>The mutable part of the \<open>SemanticsContext\<close>: the symbols by address, the messages
  said so far, and the blocks given to \<open>MapCommonBlockAndCheckConflicts\<close>.\<close>

record SemanticsContext =
  symbols :: "SymbolRef \<Rightarrow> Symbol"
  messages :: "Message list"
  mappedCommonBlocks :: "SymbolRef list"

text \<open>The members \<open>context_\<close>, \<open>offset_\<close>, \<open>alignment_\<close>, \<open>dependents_\<close> and
  \<open>equivalenceBlock_\<close> of the helper class; a name cannot end in an underscore here, so
  they carry the prefix \<open>m_\<close>.\<close>

record ComputeOffsetsHelper =
  m_context :: SemanticsContext
  m_offset :: size_t
  m_alignment :: size_t
  m_dependents :: "(SymbolRef \<times> SymbolAndOffset) list"
  m_equivalenceBlock :: "(SymbolRef \<times> SizeAndAlignment) list"

datatype ScopeKind = BlockConstruct | OtherKind

text \<open>A \<open>Scope\<close>: whether it has a symbol, whether it is a derived type with a kind
  parameter, its kind, alignment and size, its equivalence sets, its symbols in the order
  of \<open>GetSymbols\<close>, its common blocks in the order of their map, and its children.\<close>

datatype Scope = Scope
  (hasSymbol: bool)
  (IsDerivedTypeWithKindParameter: bool)
  (scope_kind: ScopeKind)
  (scope_alignment: "size_t option")
  (scope_size: size_t)
  (equivalenceSets: "EquivalenceObject list list")
  (GetSymbols: "SymbolRef list")
  (commonBlocks: "SymbolRef list")
  (children: "Scope list")

section \<open>The maps of the helper\<close>

text \<open>A \<open>std::map\<close> keyed by symbol address is a list of pairs in increasing key order.
  \<open>find\<close> is \<open>map_of\<close>. \<open>emplace\<close> leaves the map alone when the key is there, and
  otherwise inserts the pair at the place of the key.\<close>

fun insertEntry :: "SymbolRef \<Rightarrow> 'v \<Rightarrow> (SymbolRef \<times> 'v) list \<Rightarrow> (SymbolRef \<times> 'v) list" where
  "insertEntry k v [] = [(k, v)]"
| "insertEntry k v ((k', v') # m) =
     (if k < k' then (k, v) # (k', v') # m else (k', v') # insertEntry k v m)"

definition emplace :: "SymbolRef \<Rightarrow> 'v \<Rightarrow> (SymbolRef \<times> 'v) list \<Rightarrow> (SymbolRef \<times> 'v) list" where
  "emplace k v m = (case map_of m k of None \<Rightarrow> insertEntry k v m | Some _ \<Rightarrow> m)"

text \<open>Assignment through an iterator or a reference into the map: the entry keeps its place.\<close>

fun assign :: "SymbolRef \<Rightarrow> 'v \<Rightarrow> (SymbolRef \<times> 'v) list \<Rightarrow> (SymbolRef \<times> 'v) list" where
  "assign k v [] = []"
| "assign k v ((k', v') # m) =
     (if k = k' then (k', v) # m else (k', v') # assign k v m)"

section \<open>Symbols in the context\<close>

definition symbolAt :: "ComputeOffsetsHelper \<Rightarrow> SymbolRef \<Rightarrow> Symbol" where
  "symbolAt h s = symbols (m_context h) s"

definition updateSymbol ::
  "SymbolRef \<Rightarrow> (Symbol \<Rightarrow> Symbol) \<Rightarrow> ComputeOffsetsHelper \<Rightarrow> ComputeOffsetsHelper" where
  "updateSymbol s f h =
     h\<lparr>m_context := (m_context h)\<lparr>symbols := (symbols (m_context h))(s := f (symbols (m_context h) s))\<rparr>\<rparr>"

definition set_size :: "SymbolRef \<Rightarrow> size_t \<Rightarrow> ComputeOffsetsHelper \<Rightarrow> ComputeOffsetsHelper" where
  "set_size s n = updateSymbol s (\<lambda>symb. symb\<lparr>sym_size := n\<rparr>)"

definition set_offset :: "SymbolRef \<Rightarrow> size_t \<Rightarrow> ComputeOffsetsHelper \<Rightarrow> ComputeOffsetsHelper" where
  "set_offset s n = updateSymbol s (\<lambda>symb. symb\<lparr>sym_offset := n\<rparr>)"

definition set_commonBlock ::
  "SymbolRef \<Rightarrow> SymbolRef \<Rightarrow> ComputeOffsetsHelper \<Rightarrow> ComputeOffsetsHelper" where
  "set_commonBlock s block = updateSymbol s (\<lambda>symb. symb\<lparr>sym_commonBlock := Some block\<rparr>)"

definition Say :: "Message \<Rightarrow> ComputeOffsetsHelper \<Rightarrow> ComputeOffsetsHelper" where
  "Say msg h = h\<lparr>m_context := (m_context h)\<lparr>messages := messages (m_context h) @ [msg]\<rparr>\<rparr>"

text \<open>Modelled from the spec: \<open>FindCommonBlockContaining\<close> is defined in tools.cpp, which
  is not among the sources. It gives the common-block affiliation of the symbol: the
  block recorded in its \<open>ObjectEntityDetails\<close>, and none for a symbol that is not an
  object. The symbol is taken to be its own association root.\<close>

definition FindCommonBlockContaining :: "ComputeOffsetsHelper \<Rightarrow> SymbolRef \<Rightarrow> SymbolRef option" where
  "FindCommonBlockContaining h s =
     (if details (symbolAt h s) = ObjectEntityDetails then sym_commonBlock (symbolAt h s) else None)"

section \<open>Alignment and sizes\<close>

text \<open>\<open>Align\<close>, lines 455 to 459.\<close>

definition Align :: "Target \<Rightarrow> size_t \<Rightarrow> size_t \<Rightarrow> size_t" where
  "Align tc x alignment =
     (let alignment = min alignment (maxAlignment tc)
      in (x + alignment - 1) AND (- alignment))"

text \<open>\<open>GetSizeAndAlignment\<close>, lines 412 to 452. The default-constructed
  \<open>SizeAndAlignment\<close> has size and alignment 0.\<close>

definition GetSizeAndAlignment :: "Target \<Rightarrow> Symbol \<Rightarrow> bool \<Rightarrow> SizeAndAlignment" where
  "GetSizeAndAlignment tc symbol entire =
     (if isDescriptor symbol then
        \<lparr>sa_size = maxDescriptorSize symbol, sa_alignment = descriptorAlignment tc\<rparr>
      else if isProcedurePointer symbol then
        \<lparr>sa_size = procedurePointerByteSize tc, sa_alignment = procedurePointerAlignment tc\<rparr>
      else if isProcedure symbol then
        \<lparr>sa_size = 0, sa_alignment = 0\<rparr>
      else
        (case characterize symbol of
           None \<Rightarrow> \<lparr>sa_size = 0, sa_alignment = 0\<rparr>
         | Some chars \<Rightarrow>
             (case (if entire then sizeInBytes chars else elementSizeInBytes chars) of
                None \<Rightarrow> \<lparr>sa_size = 0, sa_alignment = 0\<rparr>
              | Some n \<Rightarrow> \<lparr>sa_size = n, sa_alignment = typeAlignment chars\<rparr>)))"

text \<open>\<open>DoSymbol\<close>, lines 392 to 410: the helper after the call, and the padding.\<close>

definition DoSymbol ::
  "Target \<Rightarrow> ComputeOffsetsHelper \<Rightarrow> SymbolRef \<Rightarrow> size_t option \<Rightarrow> ComputeOffsetsHelper \<times> size_t" where
  "DoSymbol tc h symbol newAlign =
     (if details (symbolAt h symbol) \<noteq> ObjectEntityDetails
         \<and> details (symbolAt h symbol) \<noteq> ProcEntityDetails then (h, 0)
      else
        let s = GetSizeAndAlignment tc (symbolAt h symbol) True in
        if sa_size s = 0 then (h, 0)
        else
          let previousOffset = m_offset h;
              alignVal = (case newAlign of Some a \<Rightarrow> a | None \<Rightarrow> sa_alignment s);
              h = h\<lparr>m_offset := Align tc (m_offset h) alignVal\<rparr>;
              padding = m_offset h - previousOffset;
              h = set_size symbol (sa_size s) h;
              h = set_offset symbol (m_offset h) h;
              h = h\<lparr>m_offset := m_offset h + sa_size s\<rparr>;
              h = h\<lparr>m_alignment := max (m_alignment h) alignVal\<rparr>
          in (h, padding))"

section \<open>Offsets of equivalence objects\<close>

definition lboundAt :: "ShapeSpec list \<Rightarrow> nat \<Rightarrow> error + int64" where
  "lboundAt shp i =
     (if i < length shp then (case lbound (shp ! i) of None \<Rightarrow> Inl Undefined | Some b \<Rightarrow> Inr b)
      else Inl Undefined)"

definition uboundAt :: "ShapeSpec list \<Rightarrow> nat \<Rightarrow> error + int64" where
  "uboundAt shp i =
     (if i < length shp then (case ubound (shp ! i) of None \<Rightarrow> Inl Undefined | Some b \<Rightarrow> Inr b)
      else Inl Undefined)"

text \<open>The loop of lines 369 to 376, entered with index \<open>i\<close> and the offset so far.\<close>

fun subscriptLoop :: "ShapeSpec list \<Rightarrow> int64 list \<Rightarrow> nat \<Rightarrow> size_t \<Rightarrow> error + size_t" where
  "subscriptLoop shp subs 0 offset =
     (case lboundAt shp 0 of
        Inl e \<Rightarrow> Inl e
      | Inr lb \<Rightarrow> Inr (offset + (subs ! 0 - lb)))"
| "subscriptLoop shp subs (Suc i) offset =
     (case lboundAt shp (Suc i) of
        Inl e \<Rightarrow> Inl e
      | Inr lb \<Rightarrow>
          (case uboundAt shp i of
             Inl e \<Rightarrow> Inl e
           | Inr ub' \<Rightarrow>
               (case lboundAt shp i of
                  Inl e \<Rightarrow> Inl e
                | Inr lb' \<Rightarrow>
                    subscriptLoop shp subs i ((offset + (subs ! Suc i - lb)) * (ub' - lb' + 1)))))"

text \<open>The kind that multiplies the substring start, lines 381 to 386: an \<open>int\<close>, the
  default character kind unless the symbol has an intrinsic type with a constant kind.\<close>

definition substringKind :: "Target \<Rightarrow> Symbol \<Rightarrow> 32 word" where
  "substringKind tc symbol =
     (case declType symbol of
        Some (Intrinsic c (Some k)) \<Rightarrow> ucast k
      | _ \<Rightarrow> defaultCharacterKind tc)"

text \<open>\<open>ComputeOffset\<close>, lines 357 to 390.\<close>

definition ComputeOffset :: "Target \<Rightarrow> ComputeOffsetsHelper \<Rightarrow> EquivalenceObject \<Rightarrow> error + size_t" where
  "ComputeOffset tc h object =
     (let symbol = symbolAt h (eo_symbol object) in
      case (if subscripts object \<noteq> [] \<and> details symbol = ObjectEntityDetails
            then subscriptLoop (shape symbol) (subscripts object) (length (subscripts object) - 1) 0
            else Inr 0) of
        Inl e \<Rightarrow> Inl e
      | Inr offset \<Rightarrow>
          let result = offset * sa_size (GetSizeAndAlignment tc symbol False) in
          (case substringStart object of
             None \<Rightarrow> Inr result
           | Some start \<Rightarrow> Inr (result + scast (substringKind tc symbol) * (start - 1))))"

section \<open>Equivalence sets\<close>

text \<open>\<open>Resolve\<close>, lines 221 to 232. The recursion follows the map, and returns only if
  the chain from the symbol ends.\<close>

partial_function (option) Resolve ::
  "(SymbolRef \<times> SymbolAndOffset) list \<Rightarrow> SymbolAndOffset \<Rightarrow> SymbolAndOffset option" where
  "Resolve deps dep =
     (case map_of deps (sao_symbol dep) of
        None \<Rightarrow> Some dep
      | Some next \<Rightarrow>
          Option.bind (Resolve deps next)
            (\<lambda>result. Some (result\<lparr>sao_offset := sao_offset result + sao_offset dep,
                                   sao_object := sao_object dep\<rparr>)))"

declare Resolve.simps [code]

text \<open>The first loop of \<open>DoEquivalenceSet\<close>, lines 310 to 322.\<close>

fun resolveObjects ::
  "Target \<Rightarrow> ComputeOffsetsHelper \<Rightarrow> EquivalenceObject list \<Rightarrow> SymbolAndOffset list \<Rightarrow> nat option
     \<Rightarrow> error + (SymbolAndOffset list \<times> nat option)" where
  "resolveObjects tc h [] symbolOffsets representative = Inr (symbolOffsets, representative)"
| "resolveObjects tc h (object # rest) symbolOffsets representative =
     (case ComputeOffset tc h object of
        Inl e \<Rightarrow> Inl e
      | Inr offset \<Rightarrow>
          (case Resolve (m_dependents h)
                  \<lparr>sao_symbol = eo_symbol object, sao_offset = offset, sao_object = object\<rparr> of
             None \<Rightarrow> Inl NoReturn
           | Some resolved \<Rightarrow>
               let symbolOffsets = symbolOffsets @ [resolved] in
               resolveObjects tc h rest symbolOffsets
                 (case representative of
                    None \<Rightarrow> Some (length symbolOffsets - 1)
                  | Some r \<Rightarrow>
                      if sao_offset (symbolOffsets ! r) \<le> sao_offset resolved
                      then Some (length symbolOffsets - 1) else Some r)))"

text \<open>The message of lines 328 to 347 about an object that names the symbol of the base
  at another offset.\<close>

definition conflictMessage ::
  "Target \<Rightarrow> ComputeOffsetsHelper \<Rightarrow> SymbolAndOffset \<Rightarrow> SymbolAndOffset \<Rightarrow> Message" where
  "conflictMessage tc h base so =
     (case (OffsetToDesignator tc (sao_symbol so) (sao_offset base),
            OffsetToDesignator tc (sao_symbol so) (sao_offset so)) of
        (Some x, Some y) \<Rightarrow>
          SameFirstStorageUnit (eo_source (sao_object base)) x y (eo_source (sao_object so))
      | _ \<Rightarrow>
          SameFirstStorageUnitOffsets (eo_source (sao_object base))
            (sym_name (symbolAt h (sao_symbol so))) (sao_offset base) (sao_offset so)
            (eo_source (sao_object so)))"

text \<open>The second loop, lines 325 to 353.\<close>

fun recordDependents ::
  "Target \<Rightarrow> SymbolAndOffset \<Rightarrow> ComputeOffsetsHelper \<Rightarrow> SymbolAndOffset list \<Rightarrow> ComputeOffsetsHelper" where
  "recordDependents tc base h [] = h"
| "recordDependents tc base h (so # rest) =
     recordDependents tc base
       (if sao_symbol so = sao_symbol base then
          (if sao_offset so \<noteq> sao_offset base then Say (conflictMessage tc h base so) h else h)
        else
          h\<lparr>m_dependents :=
              emplace (sao_symbol so)
                \<lparr>sao_symbol = sao_symbol base, sao_offset = sao_offset base - sao_offset so,
                 sao_object = sao_object so\<rparr>
                (m_dependents h)\<rparr>)
       rest"

text \<open>\<open>DoEquivalenceSet\<close>, lines 307 to 354.\<close>

definition DoEquivalenceSet ::
  "Target \<Rightarrow> ComputeOffsetsHelper \<Rightarrow> EquivalenceObject list \<Rightarrow> error + ComputeOffsetsHelper" where
  "DoEquivalenceSet tc h eqset =
     (case resolveObjects tc h eqset [] None of
        Inl e \<Rightarrow> Inl e
      | Inr (symbolOffsets, representative) \<Rightarrow>
          (case representative of
             None \<Rightarrow> Inl CheckFailed
           | Some r \<Rightarrow> Inr (recordDependents tc (symbolOffsets ! r) h symbolOffsets)))"

text \<open>The loop of \<open>Compute\<close> over the equivalence sets, lines 148 to 150.\<close>

fun buildDependents ::
  "Target \<Rightarrow> ComputeOffsetsHelper \<Rightarrow> EquivalenceObject list list \<Rightarrow> error + ComputeOffsetsHelper" where
  "buildDependents tc h [] = Inr h"
| "buildDependents tc h (eqset # rest) =
     (case DoEquivalenceSet tc h eqset of
        Inl e \<Rightarrow> Inl e
      | Inr h \<Rightarrow> buildDependents tc h rest)"

section \<open>Equivalence blocks\<close>

text \<open>\<open>DoEquivalenceBlockBase\<close>, lines 300 to 305, on the symbol and the block's entry.\<close>

definition DoEquivalenceBlockBase :: "Symbol \<Rightarrow> SizeAndAlignment \<Rightarrow> SizeAndAlignment" where
  "DoEquivalenceBlockBase symbol blockInfo =
     (if sa_size blockInfo < sym_size symbol then blockInfo\<lparr>sa_size := sym_size symbol\<rparr>
      else blockInfo)"

text \<open>The body of the loop of lines 153 to 169 for the entry of \<open>symbol\<close>, whose value
  is \<open>dep\<close>.\<close>

definition resolveDependent ::
  "Target \<Rightarrow> ComputeOffsetsHelper \<Rightarrow> SymbolRef \<Rightarrow> SymbolAndOffset \<Rightarrow> error + ComputeOffsetsHelper" where
  "resolveDependent tc h symbol dep =
     (case Resolve (m_dependents h) dep of
        None \<Rightarrow> Inl NoReturn
      | Some dep \<Rightarrow>
          let h = h\<lparr>m_dependents := assign symbol dep (m_dependents h)\<rparr> in
          if sym_size (symbolAt h symbol) \<noteq> 0 then Inl CheckFailed
          else
            let symInfo = GetSizeAndAlignment tc (symbolAt h symbol) True;
                h = set_size symbol (sa_size symInfo) h;
                base = sao_symbol dep;
                minBlockSize = sao_offset dep + sa_size symInfo
            in Inr (case map_of (m_equivalenceBlock h) base of
                      None \<Rightarrow>
                        h\<lparr>m_equivalenceBlock :=
                            emplace base
                              \<lparr>sa_size = minBlockSize, sa_alignment = sa_alignment symInfo\<rparr>
                              (m_equivalenceBlock h)\<rparr>
                    | Some blockInfo \<Rightarrow>
                        h\<lparr>m_equivalenceBlock :=
                            assign base
                              \<lparr>sa_size = max (sa_size blockInfo) minBlockSize,
                               sa_alignment = max (sa_alignment blockInfo) (sa_alignment symInfo)\<rparr>
                              (m_equivalenceBlock h)\<rparr>))"

text \<open>The loop itself. An entry is assigned only in its own turn, so the entries still
  to come are those of the map as it was when the loop began.\<close>

fun resolveDependents ::
  "Target \<Rightarrow> ComputeOffsetsHelper \<Rightarrow> (SymbolRef \<times> SymbolAndOffset) list \<Rightarrow> error + ComputeOffsetsHelper" where
  "resolveDependents tc h [] = Inr h"
| "resolveDependents tc h ((symbol, dep) # rest) =
     (case resolveDependent tc h symbol dep of
        Inl e \<Rightarrow> Inl e
      | Inr h \<Rightarrow> resolveDependents tc h rest)"

text \<open>The loop of lines 171 to 177 over the entries of \<open>equivalenceBlock_\<close>.\<close>

fun placeEquivalenceBlocks ::
  "Target \<Rightarrow> ComputeOffsetsHelper \<Rightarrow> (SymbolRef \<times> SizeAndAlignment) list \<Rightarrow> ComputeOffsetsHelper" where
  "placeEquivalenceBlocks tc h [] = h"
| "placeEquivalenceBlocks tc h ((symbol, blockInfo) # rest) =
     (if FindCommonBlockContaining h symbol = None then
        let h = fst (DoSymbol tc h symbol None);
            blockInfo = DoEquivalenceBlockBase (symbolAt h symbol) blockInfo;
            h = h\<lparr>m_equivalenceBlock := assign symbol blockInfo (m_equivalenceBlock h)\<rparr>;
            h = h\<lparr>m_offset := max (m_offset h) (sym_offset (symbolAt h symbol) + sa_size blockInfo)\<rparr>
        in placeEquivalenceBlocks tc h rest
      else placeEquivalenceBlocks tc h rest)"

section \<open>The alignment of AIX\<close>

text \<open>\<open>isReal8OrLarger\<close>, lines 74 to 78. The kind is compared as a signed number, and an
  absent kind is not greater than 4.\<close>

definition isReal8OrLarger :: "DeclTypeSpec \<Rightarrow> bool" where
  "isReal8OrLarger type =
     (case type of
        Intrinsic c k \<Rightarrow> (c = Real \<or> c = Complex) \<and> (case k of None \<Rightarrow> False | Some v \<Rightarrow> 4 <s v)
      | _ \<Rightarrow> False)"

text \<open>The loop of \<open>CompAlignment\<close>, lines 89 to 110, entered with the components still to
  visit, \<open>max_align\<close> and \<open>contain_double\<close>. The call of \<open>CompAlignment\<close> on a component
  of derived type is this loop on the components of that type, from 0 and false. The
  recursion follows the types, and returns only if their nesting ends.\<close>

partial_function (option) componentLoop ::
  "Target \<Rightarrow> (SymbolRef \<Rightarrow> Symbol) \<Rightarrow> SymbolRef list \<Rightarrow> size_t \<Rightarrow> bool
     \<Rightarrow> (error + size_t option) option" where
  "componentLoop tc syms directs max_align contain_double =
     (case directs of
        [] \<Rightarrow> Some (Inr (if contain_double then Some max_align else None))
      | it # rest \<Rightarrow>
          (case declType (syms it) of
             None \<Rightarrow> Some (Inl Undefined)
           | Some type \<Rightarrow>
               if isReal8OrLarger type then componentLoop tc syms rest (max max_align 4) True
               else
                 (case type of
                    Derived inner \<Rightarrow>
                      Option.bind (componentLoop tc syms inner 0 False)
                        (\<lambda>r. case r of
                                Inl e \<Rightarrow> Some (Inl e)
                              | Inr None \<Rightarrow> Some (Inr None)
                              | Inr (Some newAlign) \<Rightarrow>
                                  componentLoop tc syms rest
                                    (max max_align (sa_alignment (GetSizeAndAlignment tc (syms it) True)))
                                    contain_double)
                  | _ \<Rightarrow>
                      componentLoop tc syms rest
                        (max max_align (sa_alignment (GetSizeAndAlignment tc (syms it) True)))
                        contain_double)))"

declare componentLoop.simps [code]

text \<open>\<open>CompAlignment\<close>, lines 83 to 111.\<close>

definition CompAlignment ::
  "Target \<Rightarrow> (SymbolRef \<Rightarrow> Symbol) \<Rightarrow> Symbol \<Rightarrow> (error + size_t option) option" where
  "CompAlignment tc syms symb =
     (case declType symb of
        Some (Derived directs) \<Rightarrow> componentLoop tc syms directs 0 False
      | _ \<Rightarrow> Some (Inl Undefined))"

text \<open>\<open>HasSpecialAlign\<close>, lines 116 to 134, for a symbol and the symbols of the scope.\<close>

definition HasSpecialAlign ::
  "Target \<Rightarrow> ComputeOffsetsHelper \<Rightarrow> SymbolRef \<Rightarrow> SymbolRef list \<Rightarrow> error + size_t option" where
  "HasSpecialAlign tc h symb scopeSymbols =
     (case declType (symbolAt h symb) of
        None \<Rightarrow> Inr None
      | Some type \<Rightarrow>
          (case scopeSymbols of
             [] \<Rightarrow> (if ownerIsBindC (symbolAt h symb) then Inl Undefined else Inr None)
           | front # _ \<Rightarrow>
               if ownerIsBindC (symbolAt h symb) \<and> symb \<noteq> front then
                 (if isReal8OrLarger type then Inr (Some 4)
                  else
                    (case type of
                       Derived _ \<Rightarrow>
                         (case CompAlignment tc (symbols (m_context h)) (symbolAt h symb) of
                            None \<Rightarrow> Inl NoReturn
                          | Some r \<Rightarrow> r)
                     | _ \<Rightarrow> Inr None))
               else Inr None))"

section \<open>The remaining symbols of a scope\<close>

text \<open>The loop of lines 180 to 201 over the symbols of the scope.\<close>

fun placeSymbols ::
  "Target \<Rightarrow> ComputeOffsetsHelper \<Rightarrow> SymbolRef list \<Rightarrow> SymbolRef list \<Rightarrow> error + ComputeOffsetsHelper" where
  "placeSymbols tc h scopeSymbols [] = Inr h"
| "placeSymbols tc h scopeSymbols (symbol # rest) =
     (if FindCommonBlockContaining h symbol = None
         \<and> map_of (m_dependents h) symbol = None
         \<and> map_of (m_equivalenceBlock h) symbol = None then
        (case (if isAIX tc then HasSpecialAlign tc h symbol scopeSymbols else Inr None) of
           Inl e \<Rightarrow> Inl e
         | Inr newAlign \<Rightarrow>
             let h = fst (DoSymbol tc h symbol newAlign);
                 h = (if details (symbolAt h symbol) = GenericDetails then
                        (case specific (symbolAt h symbol) of
                           None \<Rightarrow> h
                         | Some spec \<Rightarrow>
                             if FindCommonBlockContaining h spec = None
                             then fst (DoSymbol tc h spec None) else h)
                      else h)
             in placeSymbols tc h scopeSymbols rest)
      else placeSymbols tc h scopeSymbols rest)"

section \<open>Common blocks\<close>

text \<open>The locals of \<open>DoCommonBlock\<close> that its loop carries.\<close>

record BlockLayout =
  helper :: ComputeOffsetsHelper
  minSize :: size_t
  minAlignment :: size_t
  previous :: "SymbolRef set"

text \<open>The extent of the equivalence block at \<open>eqIter\<close>, lines 288 to 293.\<close>

definition foldBlockExtent :: "SymbolRef option \<Rightarrow> BlockLayout \<Rightarrow> BlockLayout" where
  "foldBlockExtent eqIter st =
     (case eqIter of
        None \<Rightarrow> st
      | Some first \<Rightarrow>
          (case map_of (m_equivalenceBlock (helper st)) first of
             None \<Rightarrow> st
           | Some blockInfo \<Rightarrow>
               st\<lparr>minSize :=
                    max (minSize st)
                      (max (m_offset (helper st))
                         (sym_offset (symbolAt (helper st) first) + sa_size blockInfo)),
                  minAlignment := max (minAlignment st) (sa_alignment blockInfo)\<rparr>))"

text \<open>The key of the entry that \<open>equivalenceBlock_.find\<close> gives, if any.\<close>

definition findBlock :: "ComputeOffsetsHelper \<Rightarrow> SymbolRef \<Rightarrow> SymbolRef option" where
  "findBlock h s = (case map_of (m_equivalenceBlock h) s of None \<Rightarrow> None | Some _ \<Rightarrow> Some s)"

text \<open>The site of the messages about a member of a block, lines 243 and 244.\<close>

definition errorSiteOf :: "ComputeOffsetsHelper \<Rightarrow> SymbolRef \<Rightarrow> SymbolRef \<Rightarrow> string" where
  "errorSiteOf h commonBlock symbol =
     (if sym_name (symbolAt h commonBlock) = [] then sym_name (symbolAt h symbol)
      else sym_name (symbolAt h commonBlock))"

text \<open>The body of the loop of \<open>DoCommonBlock\<close> for one object, first part, lines 242 to
  250: the object is placed, the padding reported, and the object is among the previous
  ones. The warning is what the code hands to \<open>Warn\<close>.\<close>

definition placeCommonBlockObject ::
  "Target \<Rightarrow> SymbolRef \<Rightarrow> BlockLayout \<Rightarrow> SymbolRef \<Rightarrow> BlockLayout" where
  "placeCommonBlockObject tc commonBlock st symbol =
     (let h = helper st;
          (h, padding) = DoSymbol tc h (ultimate (symbolAt h symbol)) None;
          h = (if padding \<noteq> 0
               then Say (CommonBlockPadding (errorSiteOf h commonBlock symbol)
                           (sym_name (symbolAt h commonBlock)) padding
                           (sym_name (symbolAt h symbol))) h
               else h)
      in st\<lparr>helper := h, previous := insert symbol (previous st)\<rparr>)"

text \<open>The second part of the body, lines 251 to 293: the object meets \<open>dependents_\<close> and
  \<open>equivalenceBlock_\<close>.\<close>

definition associateCommonBlockObject ::
  "Target \<Rightarrow> SymbolRef \<Rightarrow> BlockLayout \<Rightarrow> SymbolRef \<Rightarrow> error + BlockLayout" where
  "associateCommonBlockObject tc commonBlock st symbol =
     (let h = helper st;
          errorSite = errorSiteOf h commonBlock symbol;
          blockName = sym_name (symbolAt h commonBlock);
          symbolName = sym_name (symbolAt h symbol)
      in case map_of (m_dependents h) symbol of
           None \<Rightarrow>
             (case map_of (m_equivalenceBlock h) symbol of
                None \<Rightarrow> Inr st
              | Some blockInfo \<Rightarrow>
                  Inr (foldBlockExtent (Some symbol)
                         (st\<lparr>helper :=
                              h\<lparr>m_equivalenceBlock :=
                                  assign symbol (DoEquivalenceBlockBase (symbolAt h symbol) blockInfo)
                                    (m_equivalenceBlock h)\<rparr>\<rparr>)))
         | Some dep \<Rightarrow>
             let base = sao_symbol dep;
                 baseName = sym_name (symbolAt h base)
             in (case FindCommonBlockContaining h base of
                   Some baseBlock \<Rightarrow>
                     if baseBlock = commonBlock then
                       (if base \<notin> previous st
                           \<or> sym_offset (symbolAt h base)
                               \<noteq> sym_offset (symbolAt h symbol) - sao_offset dep
                        then Inr (st\<lparr>helper :=
                                      Say (StorageAssociatedElsewhere errorSite symbolName baseName
                                             blockName) h\<rparr>)
                        else Inr st)
                     else
                       Inr (st\<lparr>helper :=
                                Say (DifferentCommonBlocks errorSite symbolName blockName baseName
                                       (sym_name (symbolAt h baseBlock))) h\<rparr>)
                 | None \<Rightarrow>
                     if sym_offset (symbolAt h symbol) < sao_offset dep then
                       Inr (st\<lparr>helper :=
                                Say (CannotBackwardExtend errorSite symbolName blockName baseName) h\<rparr>)
                     else if details (symbolAt h base) \<noteq> ObjectEntityDetails then Inl CheckFailed
                     else
                       let eqIter = findBlock h base;
                           h = set_commonBlock base commonBlock h;
                           h = set_offset base (sym_offset (symbolAt h symbol) - sao_offset dep) h
                       in Inr (foldBlockExtent eqIter
                                 (st\<lparr>helper := h, previous := insert base (previous st)\<rparr>))))"

text \<open>The whole body of the loop for one object, lines 242 to 293.\<close>

definition DoCommonBlockObject ::
  "Target \<Rightarrow> SymbolRef \<Rightarrow> BlockLayout \<Rightarrow> SymbolRef \<Rightarrow> error + BlockLayout" where
  "DoCommonBlockObject tc commonBlock st symbol =
     associateCommonBlockObject tc commonBlock
       (placeCommonBlockObject tc commonBlock st symbol) symbol"

text \<open>The loop of \<open>DoCommonBlock\<close> over the objects of the block, line 241.\<close>

fun doCommonBlockObjects ::
  "Target \<Rightarrow> SymbolRef \<Rightarrow> BlockLayout \<Rightarrow> SymbolRef list \<Rightarrow> error + BlockLayout" where
  "doCommonBlockObjects tc commonBlock st [] = Inr st"
| "doCommonBlockObjects tc commonBlock st (object # rest) =
     (case DoCommonBlockObject tc commonBlock st object of
        Inl e \<Rightarrow> Inl e
      | Inr st \<Rightarrow> doCommonBlockObjects tc commonBlock st rest)"

text \<open>\<open>DoCommonBlock\<close>, lines 234 to 298.\<close>

definition DoCommonBlock ::
  "Target \<Rightarrow> ComputeOffsetsHelper \<Rightarrow> SymbolRef \<Rightarrow> error + ComputeOffsetsHelper" where
  "DoCommonBlock tc h commonBlock =
     (if details (symbolAt h commonBlock) \<noteq> CommonBlockDetails then Inl CheckFailed
      else
        case doCommonBlockObjects tc commonBlock
               \<lparr>helper = h\<lparr>m_offset := 0, m_alignment := 0\<rparr>,
                minSize = 0, minAlignment = 0, previous = {}\<rparr>
               (objects (symbolAt h commonBlock)) of
          Inl e \<Rightarrow> Inl e
        | Inr st \<Rightarrow>
            let h = helper st;
                h = set_size commonBlock (max (minSize st) (m_offset h)) h;
                h = updateSymbol commonBlock
                      (\<lambda>symb. symb\<lparr>cb_alignment := max (minAlignment st) (m_alignment h)\<rparr>) h;
                h = h\<lparr>m_context :=
                        (m_context h)\<lparr>mappedCommonBlocks :=
                                        mappedCommonBlocks (m_context h) @ [commonBlock]\<rparr>\<rparr>
            in Inr h)"

text \<open>The loop of lines 209 to 211 over the common blocks of the scope.\<close>

fun doCommonBlocks ::
  "Target \<Rightarrow> ComputeOffsetsHelper \<Rightarrow> SymbolRef list \<Rightarrow> error + ComputeOffsetsHelper" where
  "doCommonBlocks tc h [] = Inr h"
| "doCommonBlocks tc h (commonBlock # rest) =
     (case DoCommonBlock tc h commonBlock of
        Inl e \<Rightarrow> Inl e
      | Inr h \<Rightarrow> doCommonBlocks tc h rest)"

section \<open>Scopes\<close>

text \<open>The loop of lines 213 to 218 over the entries of \<open>dependents_\<close>.\<close>

fun commitDependents ::
  "ComputeOffsetsHelper \<Rightarrow> (SymbolRef \<times> SymbolAndOffset) list \<Rightarrow> error + ComputeOffsetsHelper" where
  "commitDependents h [] = Inr h"
| "commitDependents h ((symbol, dep) # rest) =
     (let h = set_offset symbol (sym_offset (symbolAt h (sao_symbol dep)) + sao_offset dep) h
      in case FindCommonBlockContaining h (sao_symbol dep) of
           None \<Rightarrow> commitDependents h rest
         | Some block \<Rightarrow>
             if details (symbolAt h symbol) \<noteq> ObjectEntityDetails then Inl CheckFailed
             else commitDependents (set_commonBlock symbol block h) rest)"

definition SetAlignment :: "size_t \<Rightarrow> Scope \<Rightarrow> Scope" where
  "SetAlignment a scope =
     (case scope of Scope hs pdt k al sz eqs syms cbs chn \<Rightarrow> Scope hs pdt k (Some a) sz eqs syms cbs chn)"

definition set_scope_size :: "size_t \<Rightarrow> Scope \<Rightarrow> Scope" where
  "set_scope_size n scope =
     (case scope of Scope hs pdt k al sz eqs syms cbs chn \<Rightarrow> Scope hs pdt k al n eqs syms cbs chn)"

text \<open>\<open>Compute\<close> from line 146 on, for a scope that passed both returns.\<close>

definition layoutScope ::
  "Target \<Rightarrow> ComputeOffsetsHelper \<Rightarrow> Scope \<Rightarrow> error + (ComputeOffsetsHelper \<times> Scope)" where
  "layoutScope tc h scope =
     (let scope = SetAlignment 0 scope in
      case buildDependents tc h (equivalenceSets scope) of
        Inl e \<Rightarrow> Inl e
      | Inr h \<Rightarrow>
      case resolveDependents tc h (m_dependents h) of
        Inl e \<Rightarrow> Inl e
      | Inr h \<Rightarrow>
      let h = placeEquivalenceBlocks tc h (m_equivalenceBlock h) in
      case placeSymbols tc h (GetSymbols scope) (GetSymbols scope) of
        Inl e \<Rightarrow> Inl e
      | Inr h \<Rightarrow>
      let h = h\<lparr>m_offset := Align tc (m_offset h) (m_alignment h)\<rparr>;
          scope = set_scope_size (m_offset h) scope;
          scope = SetAlignment (m_alignment h) scope
      in
      case (if scope_kind scope \<noteq> BlockConstruct then doCommonBlocks tc h (commonBlocks scope)
            else Inr h) of
        Inl e \<Rightarrow> Inl e
      | Inr h \<Rightarrow>
      case commitDependents h (m_dependents h) of
        Inl e \<Rightarrow> Inl e
      | Inr h \<Rightarrow> Inr (h, scope))"

text \<open>The helper as its constructor leaves it, lines 29 and 64 to 70.\<close>

definition newHelper :: "SemanticsContext \<Rightarrow> ComputeOffsetsHelper" where
  "newHelper ctx =
     \<lparr>m_context = ctx, m_offset = 0, m_alignment = 1, m_dependents = [], m_equivalenceBlock = []\<rparr>"

text \<open>\<open>Compute\<close>, lines 136 to 219, \<open>ComputeOffsets\<close>, lines 461 to 463, and the loop of
  lines 137 to 139 over the children.\<close>

fun Compute :: "Target \<Rightarrow> ComputeOffsetsHelper \<Rightarrow> Scope \<Rightarrow> error + (ComputeOffsetsHelper \<times> Scope)"
  and ComputeOffsets :: "Target \<Rightarrow> SemanticsContext \<Rightarrow> Scope \<Rightarrow> error + (SemanticsContext \<times> Scope)"
  and computeChildren ::
    "Target \<Rightarrow> SemanticsContext \<Rightarrow> Scope list \<Rightarrow> error + (SemanticsContext \<times> Scope list)"
where
  "Compute tc h (Scope hs pdt k al sz eqs syms cbs chn) =
     (case computeChildren tc (m_context h) chn of
        Inl e \<Rightarrow> Inl e
      | Inr (ctx, chn) \<Rightarrow>
          let h = h\<lparr>m_context := ctx\<rparr>;
              scope = Scope hs pdt k al sz eqs syms cbs chn
          in if hs \<and> pdt then Inr (h, scope)
             else if al \<noteq> None then Inr (h, scope)
             else layoutScope tc h scope)"
| "ComputeOffsets tc ctx scope =
     (case Compute tc (newHelper ctx) scope of
        Inl e \<Rightarrow> Inl e
      | Inr (h, scope) \<Rightarrow> Inr (m_context h, scope))"
| "computeChildren tc ctx [] = Inr (ctx, [])"
| "computeChildren tc ctx (child # rest) =
     (case ComputeOffsets tc ctx child of
        Inl e \<Rightarrow> Inl e
      | Inr (ctx, child) \<Rightarrow>
          (case computeChildren tc ctx rest of
             Inl e \<Rightarrow> Inl e
           | Inr (ctx, rest) \<Rightarrow> Inr (ctx, child # rest)))"

section \<open>The flat element index of the specification\<close>

text \<open>
  The flat index of an array element as the specification words it: the dimensions are
  taken from the last to the first; each adds its subscript minus its declared lower
  bound, after the total of the dimensions above it has been multiplied by the extent
  (upper bound minus lower bound plus 1) of this, the next lower, dimension.
\<close>

fun flatIndex :: "ShapeSpec list \<Rightarrow> int64 list \<Rightarrow> size_t" where
  "flatIndex shp [] = 0"
| "flatIndex [] (s # ss) = 0"
| "flatIndex (d # shp) [s] = s - the (lbound d)"
| "flatIndex (d # shp) (s # ss) =
     (s - the (lbound d)) + flatIndex shp ss * (the (ubound d) - the (lbound d) + 1)"

section \<open>The representative of the specification\<close>

text \<open>
  The representative as the specification words it: the resolved object with the maximum
  resolved offset, the first-seen one among those that tie.
\<close>

definition firstMaximal :: "SymbolAndOffset list \<Rightarrow> nat option" where
  "firstMaximal symbolOffsets =
     (if symbolOffsets = [] then None
      else Some (length (takeWhile
                   (\<lambda>so. sao_offset so \<noteq> fold max (map sao_offset symbolOffsets) 0)
                   symbolOffsets)))"

section \<open>Notions for the statements about equivalence sets\<close>

text \<open>The representative as the code chooses it: an index of the list whose offset is
  maximal, and the last such index.\<close>

definition lastMaximal :: "SymbolAndOffset list \<Rightarrow> nat option \<Rightarrow> bool" where
  "lastMaximal symbolOffsets representative =
     (case representative of
        None \<Rightarrow> symbolOffsets = []
      | Some r \<Rightarrow>
          r < length symbolOffsets
          \<and> (\<forall>j < length symbolOffsets.
                 sao_offset (symbolOffsets ! j) \<le> sao_offset (symbolOffsets ! r))
          \<and> (\<forall>j < length symbolOffsets.
                 r < j \<longrightarrow> sao_offset (symbolOffsets ! j) < sao_offset (symbolOffsets ! r)))"

text \<open>An object resolves to a symbol and offset: \<open>ComputeOffset\<close> gives its offset and
  \<open>Resolve\<close> returns from there.\<close>

definition resolvesTo ::
  "Target \<Rightarrow> ComputeOffsetsHelper \<Rightarrow> EquivalenceObject \<Rightarrow> SymbolAndOffset \<Rightarrow> bool" where
  "resolvesTo tc h object so =
     (case ComputeOffset tc h object of
        Inl e \<Rightarrow> False
      | Inr offset \<Rightarrow>
          Resolve (m_dependents h)
            \<lparr>sao_symbol = eo_symbol object, sao_offset = offset, sao_object = object\<rparr> = Some so)"

text \<open>The entry that line 351 makes for a resolved object, and the test of lines 326 and 327.\<close>

definition aliasOf :: "SymbolAndOffset \<Rightarrow> SymbolAndOffset \<Rightarrow> SymbolAndOffset" where
  "aliasOf base so =
     \<lparr>sao_symbol = sao_symbol base, sao_offset = sao_offset base - sao_offset so,
      sao_object = sao_object so\<rparr>"

definition conflictsWith :: "SymbolAndOffset \<Rightarrow> SymbolAndOffset \<Rightarrow> bool" where
  "conflictsWith base so = (sao_symbol so = sao_symbol base \<and> sao_offset so \<noteq> sao_offset base)"

section \<open>Scopes that a call leaves alone\<close>

text \<open>A scope is settled when one of the two returns of lines 140 to 145 applies to it
  and to every scope below it.\<close>

fun settled :: "Scope \<Rightarrow> bool" where
  "settled (Scope hs pdt k al sz eqs syms cbs chn) =
     (((hs \<and> pdt) \<or> al \<noteq> None) \<and> (\<forall>child \<in> set chn. settled child))"

text \<open>The scope with other children in place of its own.\<close>

definition withChildren :: "Scope list \<Rightarrow> Scope \<Rightarrow> Scope" where
  "withChildren chn scope =
     (case scope of Scope hs pdt k al sz eqs syms cbs _ \<Rightarrow> Scope hs pdt k al sz eqs syms cbs chn)"


section \<open>Notions for the order of the equivalence sets\<close>



section \<open>The edges of the dependency map\<close>

text \<open>The dependency map as a graph: an edge from each symbol of the map to the symbol
  its entry names.\<close>

definition edges :: "(SymbolRef \<times> SymbolAndOffset) list \<Rightarrow> (SymbolRef \<times> SymbolRef) set" where
  "edges deps = {(k, b). \<exists>d. map_of deps k = Some d \<and> sao_symbol d = b}"

section \<open>Example inputs\<close>

text \<open>A target whose maximum alignment is \<open>m\<close>; no designator text is derivable.\<close>

definition exampleTarget :: "size_t \<Rightarrow> Target" where
  "exampleTarget m =
     \<lparr>maxAlignment = m, descriptorAlignment = 8, procedurePointerByteSize = 8,
      procedurePointerAlignment = 8, defaultCharacterKind = 1, isAIX = False,
      OffsetToDesignator = (\<lambda>_ _. None)\<rparr>"

text \<open>A data object at address \<open>r\<close>, not yet laid out: its name, its size in bytes, the
  size of one element, the alignment of its type, and its shape.\<close>

definition objectSymbol ::
  "SymbolRef \<Rightarrow> string \<Rightarrow> size_t \<Rightarrow> size_t \<Rightarrow> size_t \<Rightarrow> ShapeSpec list \<Rightarrow> Symbol" where
  "objectSymbol r nm bytes elementBytes align shp =
     \<lparr>sym_name = nm, sym_size = 0, sym_offset = 0, details = ObjectEntityDetails,
      ultimate = r, declType = None, shape = shp, sym_commonBlock = None, specific = None,
      objects = [], cb_alignment = 0, isDescriptor = False, maxDescriptorSize = 0,
      isProcedurePointer = False, isProcedure = False,
      characterize =
        Some \<lparr>sizeInBytes = Some bytes, elementSizeInBytes = Some elementBytes,
              typeAlignment = align\<rparr>,
      ownerIsBindC = False\<rparr>"

text \<open>A scalar object of the given size and alignment.\<close>

definition scalarSymbol :: "SymbolRef \<Rightarrow> string \<Rightarrow> size_t \<Rightarrow> size_t \<Rightarrow> Symbol" where
  "scalarSymbol r nm bytes align = objectSymbol r nm bytes bytes align []"

text \<open>A common block with the given members.\<close>

definition commonBlockSymbol :: "SymbolRef \<Rightarrow> string \<Rightarrow> SymbolRef list \<Rightarrow> Symbol" where
  "commonBlockSymbol r nm members =
     \<lparr>sym_name = nm, sym_size = 0, sym_offset = 0, details = CommonBlockDetails,
      ultimate = r, declType = None, shape = [], sym_commonBlock = None, specific = None,
      objects = members, cb_alignment = 0, isDescriptor = False, maxDescriptorSize = 0,
      isProcedurePointer = False, isProcedure = False, characterize = None,
      ownerIsBindC = False\<rparr>"

text \<open>A context with the given symbols and nothing said so far.\<close>

definition contextOf :: "(SymbolRef \<Rightarrow> Symbol) \<Rightarrow> SemanticsContext" where
  "contextOf syms = \<lparr>symbols = syms, messages = [], mappedCommonBlocks = []\<rparr>"

text \<open>An equivalence object that names a whole symbol, or one of its elements.\<close>

definition wholeObject :: "SymbolRef \<Rightarrow> string \<Rightarrow> EquivalenceObject" where
  "wholeObject r src = \<lparr>eo_symbol = r, subscripts = [], substringStart = None, eo_source = src\<rparr>"

definition elementObject :: "SymbolRef \<Rightarrow> int64 list \<Rightarrow> string \<Rightarrow> EquivalenceObject" where
  "elementObject r subs src =
     \<lparr>eo_symbol = r, subscripts = subs, substringStart = None, eo_source = src\<rparr>"

text \<open>\<open>REAL A(10); INTEGER B(5)\<close> with elements of 4 bytes, at addresses 1 and 2.\<close>

definition arraysAB :: "SymbolRef \<Rightarrow> Symbol" where
  "arraysAB =
     (\<lambda>r. scalarSymbol r ''?'' 0 0)
       (1 := objectSymbol 1 ''a'' 40 4 4 [\<lparr>lbound = Some 1, ubound = Some 10\<rparr>],
        2 := objectSymbol 2 ''b'' 20 4 4 [\<lparr>lbound = Some 1, ubound = Some 5\<rparr>])"

text \<open>\<open>COMMON /c/ a, b\<close> with a 4-byte integer \<open>a\<close> at address 1, an 8-byte real \<open>b\<close> at
  address 2, and the block at address 3.\<close>

definition commonAB :: "SymbolRef \<Rightarrow> Symbol" where
  "commonAB =
     (\<lambda>r. scalarSymbol r ''?'' 0 0)
       (1 := (scalarSymbol 1 ''a'' 4 4)\<lparr>sym_commonBlock := Some 3\<rparr>,
        2 := (scalarSymbol 2 ''b'' 8 8)\<lparr>sym_commonBlock := Some 3\<rparr>,
        3 := commonBlockSymbol 3 ''c'' [1, 2])"

text \<open>The locals of \<open>DoCommonBlock\<close> after the member \<open>x\<close> (4 bytes, address 1) of the
  block at address 3 was placed at offset \<open>off\<close>, when \<open>EQUIVALENCE\<close> made \<open>x\<close> depend on
  \<open>y\<close> (8 bytes, address 2, in no block) at offset \<open>d\<close>, and \<open>y\<close> is the base of an
  equivalence block of 8 bytes.\<close>

definition memberWithAlias :: "size_t \<Rightarrow> size_t \<Rightarrow> BlockLayout" where
  "memberWithAlias off d =
     \<lparr>helper =
        \<lparr>m_context =
           contextOf
             ((\<lambda>r. scalarSymbol r ''?'' 0 0)
                (1 := (scalarSymbol 1 ''x'' 4 4)
                        \<lparr>sym_commonBlock := Some 3, sym_size := 4, sym_offset := off\<rparr>,
                 2 := (scalarSymbol 2 ''y'' 8 4)\<lparr>sym_size := 8\<rparr>,
                 3 := commonBlockSymbol 3 ''c'' [1])),
         m_offset = off + 4, m_alignment = 4,
         m_dependents =
           [(1, \<lparr>sao_symbol = 2, sao_offset = d, sao_object = wholeObject 1 ''x''\<rparr>)],
         m_equivalenceBlock = [(2, \<lparr>sa_size = 8, sa_alignment = 4\<rparr>)]\<rparr>,
      minSize = 0, minAlignment = 0, previous = {1}\<rparr>"

text \<open>The helper for \<open>arraysAB\<close> after \<open>EQUIVALENCE (a(1), b(1))\<close>: \<open>a\<close> depends on \<open>b\<close> at
  offset 0.\<close>

definition afterA1B1 :: ComputeOffsetsHelper where
  "afterA1B1 =
     (newHelper (contextOf arraysAB))
       \<lparr>m_dependents :=
          [(1, \<lparr>sao_symbol = 2, sao_offset = 0, sao_object = elementObject 1 [1] ''a(1)''\<rparr>)]\<rparr>"

text \<open>\<open>REAL a(10); INTEGER c(5), e(5)\<close> with elements of 4 bytes, at addresses 1, 2 and 3,
  and \<open>EQUIVALENCE (c(2), e(1)), (a(2), c(1))\<close>: \<open>e\<close> starts 4 bytes into \<open>c\<close>, and \<open>c\<close>
  starts 4 bytes into \<open>a\<close>.\<close>

definition arraysACE :: "SymbolRef \<Rightarrow> Symbol" where
  "arraysACE =
     (\<lambda>r. scalarSymbol r ''?'' 0 0)
       (1 := objectSymbol 1 ''a'' 40 4 4 [\<lparr>lbound = Some 1, ubound = Some 10\<rparr>],
        2 := objectSymbol 2 ''c'' 20 4 4 [\<lparr>lbound = Some 1, ubound = Some 5\<rparr>],
        3 := objectSymbol 3 ''e'' 20 4 4 [\<lparr>lbound = Some 1, ubound = Some 5\<rparr>])"

definition setsChain :: "EquivalenceObject list list" where
  "setsChain =
     [ [elementObject 2 [2] ''c(2)'', elementObject 3 [1] ''e(1)''],
       [elementObject 1 [2] ''a(2)'', elementObject 2 [1] ''c(1)''] ]"

text \<open>The helper for \<open>arraysACE\<close> after the loop over these sets, and after the
  resolution loop.\<close>

definition chainBuilt :: ComputeOffsetsHelper where
  "chainBuilt =
     (newHelper (contextOf arraysACE))
       \<lparr>m_dependents :=
          [(2, \<lparr>sao_symbol = 1, sao_offset = 4, sao_object = elementObject 2 [1] ''c(1)''\<rparr>),
           (3, \<lparr>sao_symbol = 2, sao_offset = 4, sao_object = elementObject 3 [1] ''e(1)''\<rparr>)]\<rparr>"

definition chainResolved :: ComputeOffsetsHelper where
  "chainResolved =
     \<lparr>m_context =
        contextOf (arraysACE (2 := (arraysACE 2)\<lparr>sym_size := 20\<rparr>,
                              3 := (arraysACE 3)\<lparr>sym_size := 20\<rparr>)),
      m_offset = 0, m_alignment = 1,
      m_dependents =
        [(2, \<lparr>sao_symbol = 1, sao_offset = 4, sao_object = elementObject 2 [1] ''c(1)''\<rparr>),
         (3, \<lparr>sao_symbol = 1, sao_offset = 8, sao_object = elementObject 3 [1] ''e(1)''\<rparr>)],
      m_equivalenceBlock = [(1, \<lparr>sa_size = 28, sa_alignment = 4\<rparr>)]\<rparr>"

text \<open>A 16-byte real \<open>x\<close> of alignment 16 at address 1 and a 4-byte integer \<open>i\<close> at
  address 2, and a scope that owns both.\<close>

definition quadAndInt :: "SymbolRef \<Rightarrow> Symbol" where
  "quadAndInt =
     (\<lambda>r. scalarSymbol r ''?'' 0 0)
       (1 := scalarSymbol 1 ''x'' 16 16,
        2 := scalarSymbol 2 ''i'' 4 4)"

definition quadAndIntPlaced :: "SymbolRef \<Rightarrow> Symbol" where
  "quadAndIntPlaced =
     quadAndInt
       (1 := (scalarSymbol 1 ''x'' 16 16)\<lparr>sym_size := 16, sym_offset := 0\<rparr>,
        2 := (scalarSymbol 2 ''i'' 4 4)\<lparr>sym_size := 4, sym_offset := 16\<rparr>)"

definition quadAndIntScope :: Scope where
  "quadAndIntScope = Scope False False OtherKind None 0 [] [1, 2] [] []"

text \<open>A scope with a recorded alignment, and below it a scope that owns \<open>i\<close> and was not
  processed.\<close>

definition processedParent :: Scope where
  "processedParent =
     Scope False False OtherKind (Some 8) 8 [] [] []
       [Scope False False OtherKind None 0 [] [2] [] [] ]"








section \<open>Alignment\<close>

lemma and_not_mask_push_drop: "(y::64 word) AND NOT (mask n) = push_bit n (drop_bit n y)"
  by (rule bit_eqI) (auto simp: bit_simps)

lemma unat_and_neg_pow2:
  assumes "n < 64"
  shows "unat ((y::64 word) AND - (2 ^ n)) = unat y div 2 ^ n * 2 ^ n"
proof -
  have le: "unat y div 2 ^ n * 2 ^ n \<le> unat y" by simp
  have "unat y < 2 ^ 64" using unsigned_less [of y] by simp
  with le have lt: "unat y div 2 ^ n * 2 ^ n < 2 ^ 64" by linarith
  have "y AND - (2 ^ n) = push_bit n (drop_bit n y)"
    by (simp add: minus_exp_eq_not_mask and_not_mask_push_drop)
  then have "unat (y AND - (2 ^ n)) = unat (push_bit n (drop_bit n y))" by simp
  also have "\<dots> = take_bit 64 (push_bit n (unat (drop_bit n y)))"
    by (simp add: unsigned_push_bit_eq)
  also have "\<dots> = take_bit 64 (push_bit n (drop_bit n (unat y)))"
    by (simp only: unat_drop_bit_eq)
  also have "\<dots> = take_bit 64 (unat y div 2 ^ n * 2 ^ n)"
    by (simp only: push_bit_eq_mult drop_bit_eq_div)
  also have "\<dots> = unat y div 2 ^ n * 2 ^ n"
    using lt by (simp add: take_bit_nat_eq_self_iff)
  finally show ?thesis .
qed





lemma unat_Align_pow2:
  assumes "n < 64" "min a (maxAlignment tc) = 2 ^ n"
  shows "unat (Align tc x a) = unat (x + 2 ^ n - 1) div 2 ^ n * 2 ^ n"
  using assms by (simp add: Align_def Let_def unat_and_neg_pow2)







section \<open>Reading the helper after an update\<close>

lemma symbolAt_updateSymbol [simp]:
  "symbolAt (updateSymbol s f h) s' = (if s' = s then f (symbolAt h s) else symbolAt h s')"
  by (simp add: symbolAt_def updateSymbol_def)

lemma updateSymbol_fields [simp]:
  "m_offset (updateSymbol s f h) = m_offset h"
  "m_alignment (updateSymbol s f h) = m_alignment h"
  "m_dependents (updateSymbol s f h) = m_dependents h"
  "m_equivalenceBlock (updateSymbol s f h) = m_equivalenceBlock h"
  "messages (m_context (updateSymbol s f h)) = messages (m_context h)"
  "mappedCommonBlocks (m_context (updateSymbol s f h)) = mappedCommonBlocks (m_context h)"
  by (simp_all add: updateSymbol_def)

lemma symbolAt_fields [simp]:
  "symbolAt (h\<lparr>m_offset := x\<rparr>) = symbolAt h"
  "symbolAt (h\<lparr>m_alignment := y\<rparr>) = symbolAt h"
  "symbolAt (h\<lparr>m_dependents := d\<rparr>) = symbolAt h"
  "symbolAt (h\<lparr>m_equivalenceBlock := e\<rparr>) = symbolAt h"
  by (simp_all add: symbolAt_def fun_eq_iff)

lemma Say_fields [simp]:
  "symbolAt (Say msg h) = symbolAt h"
  "m_offset (Say msg h) = m_offset h"
  "m_alignment (Say msg h) = m_alignment h"
  "m_dependents (Say msg h) = m_dependents h"
  "m_equivalenceBlock (Say msg h) = m_equivalenceBlock h"
  "messages (m_context (Say msg h)) = messages (m_context h) @ [msg]"
  "mappedCommonBlocks (m_context (Say msg h)) = mappedCommonBlocks (m_context h)"
  by (simp_all add: Say_def symbolAt_def fun_eq_iff)

lemma GetSizeAndAlignment_update [simp]:
  "GetSizeAndAlignment tc (symb\<lparr>sym_size := n\<rparr>) e = GetSizeAndAlignment tc symb e"
  "GetSizeAndAlignment tc (symb\<lparr>sym_offset := n\<rparr>) e = GetSizeAndAlignment tc symb e"
  "GetSizeAndAlignment tc (symb\<lparr>sym_commonBlock := b\<rparr>) e = GetSizeAndAlignment tc symb e"
  by (simp_all add: GetSizeAndAlignment_def)

lemma DoSymbol_placed:
  assumes "details (symbolAt h s) = ObjectEntityDetails \<or> details (symbolAt h s) = ProcEntityDetails"
    and "GetSizeAndAlignment tc (symbolAt h s) True = \<lparr>sa_size = n, sa_alignment = a\<rparr>"
    and "n \<noteq> 0"
  shows "DoSymbol tc h s newAlign =
           (let alignVal = (case newAlign of Some v \<Rightarrow> v | None \<Rightarrow> a);
                off = Align tc (m_offset h) alignVal
            in ((set_offset s off (set_size s n h))
                  \<lparr>m_offset := off + n, m_alignment := max (m_alignment h) alignVal\<rparr>,
                off - m_offset h))"
  using assms
  by (cases newAlign)
     (auto simp: DoSymbol_def Let_def set_size_def set_offset_def updateSymbol_def symbolAt_def)

section \<open>Offsets of equivalence objects\<close>

lemma lboundAt_explicit:
  "i < length shp \<Longrightarrow> lbound (shp ! i) \<noteq> None \<Longrightarrow> lboundAt shp i = Inr (the (lbound (shp ! i)))"
  by (auto simp: lboundAt_def)

lemma uboundAt_explicit:
  "i < length shp \<Longrightarrow> ubound (shp ! i) \<noteq> None \<Longrightarrow> uboundAt shp i = Inr (the (ubound (shp ! i)))"
  by (auto simp: uboundAt_def)

lemma flatIndex_drop_last:
  assumes "subs \<noteq> []" "length subs \<le> length shp"
  shows "flatIndex (drop (length subs - 1) shp) (drop (length subs - 1) subs)
           = subs ! (length subs - 1) - the (lbound (shp ! (length subs - 1)))"
proof -
  let ?i = "length subs - 1"
  have i: "?i < length subs" "?i < length shp" using assms by (cases subs; simp)+
  have "drop ?i subs = [subs ! ?i]"
    using i(1) by (metis Cons_nth_drop_Suc Suc_diff_1 drop_all le_refl length_greater_0_conv assms(1))
  moreover have "drop ?i shp = shp ! ?i # drop (Suc ?i) shp"
    using i(2) by (simp add: Cons_nth_drop_Suc)
  ultimately show ?thesis by simp
qed

lemma flatIndex_drop_step:
  assumes "Suc i < length subs" "length subs \<le> length shp"
  shows "flatIndex (drop i shp) (drop i subs)
           = (subs ! i - the (lbound (shp ! i)))
             + flatIndex (drop (Suc i) shp) (drop (Suc i) subs)
               * (the (ubound (shp ! i)) - the (lbound (shp ! i)) + 1)"
proof -
  have "drop i subs = subs ! i # subs ! Suc i # drop (Suc (Suc i)) subs"
    using assms(1) by (simp add: Cons_nth_drop_Suc)
  moreover have "drop (Suc i) subs = subs ! Suc i # drop (Suc (Suc i)) subs"
    using assms(1) by (simp add: Cons_nth_drop_Suc)
  moreover have "drop i shp = shp ! i # drop (Suc i) shp"
    using assms by (simp add: Cons_nth_drop_Suc)
  ultimately show ?thesis by simp
qed

lemma subscriptLoop_flatIndex:
  assumes "i < length subs" "length subs \<le> length shp"
    and "\<forall>j < length subs. lbound (shp ! j) \<noteq> None"
    and "\<forall>j < length subs - 1. ubound (shp ! j) \<noteq> None"
    and "offset + (subs ! i - the (lbound (shp ! i))) = flatIndex (drop i shp) (drop i subs)"
  shows "subscriptLoop shp subs i offset = Inr (flatIndex shp subs)"
  using assms
proof (induction i arbitrary: offset)
  case 0
  have "lboundAt shp 0 = Inr (the (lbound (shp ! 0)))"
    using "0.prems" by (intro lboundAt_explicit) auto
  then show ?case using "0.prems"(5) by simp
next
  case (Suc i)
  have lb: "lboundAt shp (Suc i) = Inr (the (lbound (shp ! Suc i)))"
    using Suc.prems by (intro lboundAt_explicit) auto
  have lb': "lboundAt shp i = Inr (the (lbound (shp ! i)))"
    using Suc.prems by (intro lboundAt_explicit) auto
  have ub': "uboundAt shp i = Inr (the (ubound (shp ! i)))"
    using Suc.prems by (intro uboundAt_explicit) auto
  have step: "flatIndex (drop (Suc i) shp) (drop (Suc i) subs)
                * (the (ubound (shp ! i)) - the (lbound (shp ! i)) + 1)
              + (subs ! i - the (lbound (shp ! i)))
              = flatIndex (drop i shp) (drop i subs)"
    using Suc.prems(1,2) by (simp add: flatIndex_drop_step)
  have "subscriptLoop shp subs i
          ((offset + (subs ! Suc i - the (lbound (shp ! Suc i))))
             * (the (ubound (shp ! i)) - the (lbound (shp ! i)) + 1))
        = Inr (flatIndex shp subs)"
    using Suc.prems step by (intro Suc.IH) simp_all
  then show ?case by (simp add: lb lb' ub')
qed

text \<open>
  C3: for an equivalence object that names an element of an array object by constant
  subscripts (no more subscripts than dimensions, the lower bounds constant, and the upper
  bounds of all but the last subscripted dimension constant), \<open>ComputeOffset\<close> returns
  the flat index of the specification times the size of one element of the symbol, plus,
  when there is a substring start, the kind times the start minus 1; the kind is that of
  the symbol's intrinsic type when it is a constant, and the default character kind
  otherwise.
\<close>

theorem ComputeOffset_array_element:
  assumes "subscripts object \<noteq> []"
    and "details (symbolAt h (eo_symbol object)) = ObjectEntityDetails"
    and "length (subscripts object) \<le> length (shape (symbolAt h (eo_symbol object)))"
    and "\<forall>j < length (subscripts object). lbound (shape (symbolAt h (eo_symbol object)) ! j) \<noteq> None"
    and "\<forall>j < length (subscripts object) - 1.
           ubound (shape (symbolAt h (eo_symbol object)) ! j) \<noteq> None"
  shows "ComputeOffset tc h object =
           Inr (flatIndex (shape (symbolAt h (eo_symbol object))) (subscripts object)
                  * sa_size (GetSizeAndAlignment tc (symbolAt h (eo_symbol object)) False)
                + (case substringStart object of
                     None \<Rightarrow> 0
                   | Some start \<Rightarrow>
                       scast (substringKind tc (symbolAt h (eo_symbol object))) * (start - 1)))
         \<and> (\<forall>c k. declType (symbolAt h (eo_symbol object)) = Some (Intrinsic c (Some k))
                \<longrightarrow> substringKind tc (symbolAt h (eo_symbol object)) = ucast k)
         \<and> ((\<forall>c k. declType (symbolAt h (eo_symbol object)) \<noteq> Some (Intrinsic c (Some k)))
                \<longrightarrow> substringKind tc (symbolAt h (eo_symbol object)) = defaultCharacterKind tc)"
proof -
  let ?sym = "symbolAt h (eo_symbol object)"
  let ?subs = "subscripts object"
  have last: "length ?subs - 1 < length ?subs" using assms(1) by (cases ?subs) simp_all
  have "subscriptLoop (shape ?sym) ?subs (length ?subs - 1) 0
          = Inr (flatIndex (shape ?sym) ?subs)"
    using last assms(3,4,5) flatIndex_drop_last [OF assms(1,3)]
    by (intro subscriptLoop_flatIndex) simp_all
  then have "ComputeOffset tc h object =
           Inr (flatIndex (shape ?sym) ?subs * sa_size (GetSizeAndAlignment tc ?sym False)
                + (case substringStart object of
                     None \<Rightarrow> 0
                   | Some start \<Rightarrow> scast (substringKind tc ?sym) * (start - 1)))"
    using assms(1,2) by (simp add: ComputeOffset_def Let_def split: option.split)
  moreover have "\<forall>c k. declType ?sym = Some (Intrinsic c (Some k))
                   \<longrightarrow> substringKind tc ?sym = ucast k"
    by (simp add: substringKind_def)
  moreover have "(\<forall>c k. declType ?sym \<noteq> Some (Intrinsic c (Some k)))
                   \<longrightarrow> substringKind tc ?sym = defaultCharacterKind tc"
    by (auto simp: substringKind_def split: option.split DeclTypeSpec.split)
  ultimately show ?thesis by blast
qed

theorem ComputeOffset_array_element_witness:
  "subscripts (elementObject 1 [3] ''a(3)'') \<noteq> []
   \<and> details (symbolAt (newHelper (contextOf arraysAB)) 1) = ObjectEntityDetails
   \<and> ComputeOffset (exampleTarget 8) (newHelper (contextOf arraysAB)) (elementObject 1 [3] ''a(3)'')
       = Inr 8"
  using ComputeOffset_array_element
          [of "elementObject 1 [3] ''a(3)''" "newHelper (contextOf arraysAB)" "exampleTarget 8"]
  by (simp add: elementObject_def newHelper_def contextOf_def arraysAB_def symbolAt_def
        objectSymbol_def GetSizeAndAlignment_def)

section \<open>A common block of two members\<close>

lemma min_4_word: assumes "8 \<le> (m::64 word)" shows "min 4 m = 4"
proof -
  have "(4::64 word) \<le> 8" by simp
  then have "4 \<le> m" using assms by (rule order_trans)
  then show ?thesis by (simp add: min_def)
qed

lemma min_8_word: "8 \<le> (m::64 word) \<Longrightarrow> min 8 m = 8"
  by (simp add: min_def)

text \<open>
  C5: a common block \<open>c\<close> whose members are \<open>a\<close> then \<open>b\<close>, where \<open>a\<close> has size 4 and
  alignment 4 and \<open>b\<close> has size 8 and alignment 8, neither is in \<open>dependents_\<close> or
  \<open>equivalenceBlock_\<close>, and the maximum alignment of the target is at least 8:
  \<open>DoCommonBlock\<close> places \<open>a\<close> at offset 0 with size 4, warns of 4 bytes of padding
  before \<open>b\<close>, places \<open>b\<close> at offset 8 with size 8, and gives the block size 16 and
  alignment 8.
\<close>

theorem DoCommonBlock_two_members:
  assumes max: "8 \<le> maxAlignment tc"
    and block: "details (symbolAt h c) = CommonBlockDetails" "objects (symbolAt h c) = [a, b]"
    and distinct: "a \<noteq> b" "a \<noteq> c" "b \<noteq> c"
    and A: "details (symbolAt h a) = ObjectEntityDetails" "ultimate (symbolAt h a) = a"
           "GetSizeAndAlignment tc (symbolAt h a) True = \<lparr>sa_size = 4, sa_alignment = 4\<rparr>"
    and B: "details (symbolAt h b) = ObjectEntityDetails" "ultimate (symbolAt h b) = b"
           "GetSizeAndAlignment tc (symbolAt h b) True = \<lparr>sa_size = 8, sa_alignment = 8\<rparr>"
    and noeq: "map_of (m_dependents h) a = None" "map_of (m_dependents h) b = None"
              "map_of (m_equivalenceBlock h) a = None" "map_of (m_equivalenceBlock h) b = None"
  shows "\<exists>h'. DoCommonBlock tc h c = Inr h'
           \<and> sym_offset (symbolAt h' a) = 0 \<and> sym_size (symbolAt h' a) = 4
           \<and> sym_offset (symbolAt h' b) = 8 \<and> sym_size (symbolAt h' b) = 8
           \<and> sym_size (symbolAt h' c) = 16 \<and> cb_alignment (symbolAt h' c) = 8
           \<and> messages (m_context h') = messages (m_context h) @
                [CommonBlockPadding
                   (if sym_name (symbolAt h c) = [] then sym_name (symbolAt h b)
                    else sym_name (symbolAt h c))
                   (sym_name (symbolAt h c)) 4 (sym_name (symbolAt h b))]"
proof -
  let ?h0 = "h\<lparr>m_offset := 0, m_alignment := 0\<rparr>"
  let ?st0 = "\<lparr>helper = ?h0, minSize = 0, minAlignment = 0, previous = {}\<rparr>"
  let ?site = "if sym_name (symbolAt h c) = [] then sym_name (symbolAt h b)
               else sym_name (symbolAt h c)"
  have a4: "Align tc 0 4 = 0" using max by (simp add: Align_def min_4_word)
  have a8: "Align tc 4 8 = 8" using max by (simp add: Align_def min_8_word)
  let ?h1 = "(set_offset a 0 (set_size a 4 ?h0))\<lparr>m_offset := 4, m_alignment := 4\<rparr>"
  let ?st1 = "\<lparr>helper = ?h1, minSize = 0, minAlignment = 0, previous = {a}\<rparr>"
  have s1: "DoCommonBlockObject tc c ?st0 a = Inr ?st1"
    using A noeq
    by (simp add: DoCommonBlockObject_def placeCommonBlockObject_def
          associateCommonBlockObject_def DoSymbol_placed a4 Let_def set_size_def set_offset_def)
  let ?h2 = "Say (CommonBlockPadding ?site (sym_name (symbolAt h c)) 4 (sym_name (symbolAt h b)))
               ((set_offset b 8 (set_size b 8 ?h1))\<lparr>m_offset := 16, m_alignment := 8\<rparr>)"
  let ?st2 = "\<lparr>helper = ?h2, minSize = 0, minAlignment = 0, previous = {b, a}\<rparr>"
  have s2: "DoCommonBlockObject tc c ?st1 b = Inr ?st2"
    using B noeq distinct
    by (simp add: DoCommonBlockObject_def placeCommonBlockObject_def errorSiteOf_def
          associateCommonBlockObject_def DoSymbol_placed a8 Let_def set_size_def set_offset_def)
  have "doCommonBlockObjects tc c ?st0 [a, b] = Inr ?st2"
    by (simp add: s1 s2)
  then have "DoCommonBlock tc h c = Inr
      ((updateSymbol c (\<lambda>symb. symb\<lparr>cb_alignment := 8\<rparr>) (set_size c 16 ?h2))
         \<lparr>m_context :=
             (m_context (updateSymbol c (\<lambda>symb. symb\<lparr>cb_alignment := 8\<rparr>) (set_size c 16 ?h2)))
               \<lparr>mappedCommonBlocks := mappedCommonBlocks (m_context h) @ [c]\<rparr>\<rparr>)"
    using block by (simp add: DoCommonBlock_def Let_def set_size_def set_offset_def)
  then show ?thesis
    using distinct by (simp add: set_size_def set_offset_def symbolAt_def updateSymbol_def Say_def)
qed

theorem DoCommonBlock_two_members_witness:
  "8 \<le> maxAlignment (exampleTarget 8)
   \<and> objects (symbolAt (newHelper (contextOf commonAB)) 3) = [1, 2]
   \<and> (\<exists>h'. DoCommonBlock (exampleTarget 8) (newHelper (contextOf commonAB)) 3 = Inr h'
          \<and> sym_offset (symbolAt h' 1) = 0 \<and> sym_size (symbolAt h' 1) = 4
          \<and> sym_offset (symbolAt h' 2) = 8 \<and> sym_size (symbolAt h' 2) = 8
          \<and> sym_size (symbolAt h' 3) = 16 \<and> cb_alignment (symbolAt h' 3) = 8
          \<and> messages (m_context h') = [CommonBlockPadding ''c'' ''c'' 4 ''b''])"
  using DoCommonBlock_two_members [of "exampleTarget 8" "newHelper (contextOf commonAB)" 3 1 2]
  by (simp add: exampleTarget_def newHelper_def contextOf_def commonAB_def symbolAt_def
        scalarSymbol_def objectSymbol_def commonBlockSymbol_def GetSizeAndAlignment_def)

section \<open>A member of a common block that depends on a base outside of any block\<close>

lemma FindCommonBlockContaining_Say [simp]:
  "FindCommonBlockContaining (Say msg h) = FindCommonBlockContaining h"
  by (simp add: FindCommonBlockContaining_def fun_eq_iff)

text \<open>
  C4: a member of the block has a dependency edge to a base that is in no common block.
  If the offset of the edge exceeds the offset of the member, the error about extending
  the block backward is said and nothing else changes: the base is not adopted. Otherwise
  the base (an object) gets this block and the offset of the member minus the offset of
  the edge, without wrap-around; it is among the previous symbols; nothing is said; and
  the extent of the equivalence block of the base, if it has one, enters the minimum size
  and alignment of the block.
\<close>

theorem associateCommonBlockObject_base_outside:
  assumes "map_of (m_dependents (helper st)) symbol = Some dep"
    and "FindCommonBlockContaining (helper st) (sao_symbol dep) = None"
  shows "(sym_offset (symbolAt (helper st) symbol) < sao_offset dep \<longrightarrow>
            associateCommonBlockObject tc commonBlock st symbol =
              Inr (st\<lparr>helper :=
                        Say (CannotBackwardExtend (errorSiteOf (helper st) commonBlock symbol)
                               (sym_name (symbolAt (helper st) symbol))
                               (sym_name (symbolAt (helper st) commonBlock))
                               (sym_name (symbolAt (helper st) (sao_symbol dep))))
                          (helper st)\<rparr>))
       \<and> (\<not> sym_offset (symbolAt (helper st) symbol) < sao_offset dep
            \<and> details (symbolAt (helper st) (sao_symbol dep)) = ObjectEntityDetails \<longrightarrow>
            (\<exists>st'. associateCommonBlockObject tc commonBlock st symbol = Inr st'
               \<and> sym_commonBlock (symbolAt (helper st') (sao_symbol dep)) = Some commonBlock
               \<and> FindCommonBlockContaining (helper st') (sao_symbol dep) = Some commonBlock
               \<and> sym_offset (symbolAt (helper st') (sao_symbol dep))
                   = sym_offset (symbolAt (helper st) symbol) - sao_offset dep
               \<and> unat (sym_offset (symbolAt (helper st') (sao_symbol dep)))
                   = unat (sym_offset (symbolAt (helper st) symbol)) - unat (sao_offset dep)
               \<and> unat (sao_offset dep) \<le> unat (sym_offset (symbolAt (helper st) symbol))
               \<and> previous st' = insert (sao_symbol dep) (previous st)
               \<and> messages (m_context (helper st')) = messages (m_context (helper st))
               \<and> (case map_of (m_equivalenceBlock (helper st)) (sao_symbol dep) of
                     None \<Rightarrow> minSize st' = minSize st \<and> minAlignment st' = minAlignment st
                   | Some blockInfo \<Rightarrow>
                       minSize st' =
                         max (minSize st)
                           (max (m_offset (helper st))
                              (sym_offset (symbolAt (helper st) symbol) - sao_offset dep
                                 + sa_size blockInfo))
                       \<and> minAlignment st' = max (minAlignment st) (sa_alignment blockInfo))))"
proof (intro conjI impI)
  assume "sym_offset (symbolAt (helper st) symbol) < sao_offset dep"
  then show "associateCommonBlockObject tc commonBlock st symbol =
              Inr (st\<lparr>helper :=
                        Say (CannotBackwardExtend (errorSiteOf (helper st) commonBlock symbol)
                               (sym_name (symbolAt (helper st) symbol))
                               (sym_name (symbolAt (helper st) commonBlock))
                               (sym_name (symbolAt (helper st) (sao_symbol dep))))
                          (helper st)\<rparr>)"
    using assms by (simp add: associateCommonBlockObject_def Let_def)
next
  let ?h = "helper st"
  let ?base = "sao_symbol dep"
  let ?off = "sym_offset (symbolAt ?h symbol) - sao_offset dep"
  assume a: "\<not> sym_offset (symbolAt ?h symbol) < sao_offset dep
             \<and> details (symbolAt ?h ?base) = ObjectEntityDetails"
  then have le: "sao_offset dep \<le> sym_offset (symbolAt ?h symbol)" by (simp add: not_less)
  let ?h' = "set_offset ?base ?off (set_commonBlock ?base commonBlock ?h)"
  let ?st' = "foldBlockExtent (findBlock ?h ?base)
                (st\<lparr>helper := ?h', previous := insert ?base (previous st)\<rparr>)"
  have off: "sym_offset (symbolAt (set_commonBlock ?base commonBlock ?h) symbol)
               = sym_offset (symbolAt ?h symbol)"
    by (simp add: set_commonBlock_def)
  have run: "associateCommonBlockObject tc commonBlock st symbol = Inr ?st'"
    using assms a by (simp add: associateCommonBlockObject_def Let_def off)
  have hst: "helper ?st' = ?h'" "previous ?st' = insert ?base (previous st)"
    by (simp_all add: foldBlockExtent_def split: option.split)
  have eqb: "m_equivalenceBlock ?h' = m_equivalenceBlock ?h" "m_offset ?h' = m_offset ?h"
    by (simp_all add: set_offset_def set_commonBlock_def)
  have base': "sym_offset (symbolAt ?h' ?base) = ?off"
    by (simp add: set_offset_def set_commonBlock_def)
  have extent: "case map_of (m_equivalenceBlock ?h) ?base of
                  None \<Rightarrow> minSize ?st' = minSize st \<and> minAlignment ?st' = minAlignment st
                | Some blockInfo \<Rightarrow>
                    minSize ?st' = max (minSize st) (max (m_offset ?h) (?off + sa_size blockInfo))
                    \<and> minAlignment ?st' = max (minAlignment st) (sa_alignment blockInfo)"
    by (simp add: foldBlockExtent_def findBlock_def eqb base' split: option.split)
  have "FindCommonBlockContaining ?h' ?base = Some commonBlock"
    using a by (simp add: FindCommonBlockContaining_def set_offset_def set_commonBlock_def)
  moreover have "unat ?off = unat (sym_offset (symbolAt ?h symbol)) - unat (sao_offset dep)"
    using le by (rule unat_sub)
  moreover have "unat (sao_offset dep) \<le> unat (sym_offset (symbolAt ?h symbol))"
    using le by (simp add: word_le_nat_alt)
  moreover have "messages (m_context ?h') = messages (m_context ?h)"
    by (simp add: set_offset_def set_commonBlock_def)
  moreover have "sym_commonBlock (symbolAt ?h' ?base) = Some commonBlock"
    by (simp add: set_offset_def set_commonBlock_def)
  ultimately show "\<exists>st'. associateCommonBlockObject tc commonBlock st symbol = Inr st'
               \<and> sym_commonBlock (symbolAt (helper st') ?base) = Some commonBlock
               \<and> FindCommonBlockContaining (helper st') ?base = Some commonBlock
               \<and> sym_offset (symbolAt (helper st') ?base) = ?off
               \<and> unat (sym_offset (symbolAt (helper st') ?base))
                   = unat (sym_offset (symbolAt ?h symbol)) - unat (sao_offset dep)
               \<and> unat (sao_offset dep) \<le> unat (sym_offset (symbolAt ?h symbol))
               \<and> previous st' = insert ?base (previous st)
               \<and> messages (m_context (helper st')) = messages (m_context ?h)
               \<and> (case map_of (m_equivalenceBlock ?h) ?base of
                     None \<Rightarrow> minSize st' = minSize st \<and> minAlignment st' = minAlignment st
                   | Some blockInfo \<Rightarrow>
                       minSize st' =
                         max (minSize st) (max (m_offset ?h) (?off + sa_size blockInfo))
                       \<and> minAlignment st' = max (minAlignment st) (sa_alignment blockInfo))"
    using run hst base' extent by (intro exI [of _ ?st']) simp
qed

theorem associateCommonBlockObject_base_outside_witness:
  "map_of (m_dependents (helper (memberWithAlias 8 4))) 1
     = Some \<lparr>sao_symbol = 2, sao_offset = 4, sao_object = wholeObject 1 ''x''\<rparr>
   \<and> FindCommonBlockContaining (helper (memberWithAlias 8 4)) 2 = None
   \<and> \<not> sym_offset (symbolAt (helper (memberWithAlias 8 4)) 1) < 4
   \<and> (\<exists>st'. associateCommonBlockObject (exampleTarget 8) 3 (memberWithAlias 8 4) 1 = Inr st'
          \<and> FindCommonBlockContaining (helper st') 2 = Some 3
          \<and> sym_offset (symbolAt (helper st') 2) = 4
          \<and> previous st' = {2, 1}
          \<and> minSize st' = 12 \<and> minAlignment st' = 4)
   \<and> sym_offset (symbolAt (helper (memberWithAlias 0 4)) 1) < 4
   \<and> associateCommonBlockObject (exampleTarget 8) 3 (memberWithAlias 0 4) 1
       = Inr ((memberWithAlias 0 4)
               \<lparr>helper := Say (CannotBackwardExtend ''c'' ''x'' ''c'' ''y'')
                            (helper (memberWithAlias 0 4))\<rparr>)"
proof -
  let ?dep = "\<lparr>sao_symbol = 2, sao_offset = 4, sao_object = wholeObject 1 ''x''\<rparr>"
  note defs = memberWithAlias_def contextOf_def symbolAt_def scalarSymbol_def objectSymbol_def
    commonBlockSymbol_def FindCommonBlockContaining_def errorSiteOf_def
  have dep: "map_of (m_dependents (helper (memberWithAlias off 4))) 1 = Some ?dep" for off
    by (simp add: defs)
  have nob: "FindCommonBlockContaining (helper (memberWithAlias off 4)) (sao_symbol ?dep) = None"
    for off by (simp add: defs)
  have fits: "\<not> sym_offset (symbolAt (helper (memberWithAlias 8 4)) 1) < sao_offset ?dep
              \<and> details (symbolAt (helper (memberWithAlias 8 4)) (sao_symbol ?dep))
                  = ObjectEntityDetails"
    by (simp add: defs)
  have block: "map_of (m_equivalenceBlock (helper (memberWithAlias 8 4))) (sao_symbol ?dep)
                 = Some \<lparr>sa_size = 8, sa_alignment = 4\<rparr>"
    by (simp add: defs)
  have before: "sym_offset (symbolAt (helper (memberWithAlias 0 4)) 1) < sao_offset ?dep"
    by (simp add: defs)
  from associateCommonBlockObject_base_outside [OF dep nob, of 8 "exampleTarget 8" 3] fits
  obtain st' where st':
    "associateCommonBlockObject (exampleTarget 8) 3 (memberWithAlias 8 4) 1 = Inr st'"
    "FindCommonBlockContaining (helper st') (sao_symbol ?dep) = Some 3"
    "sym_offset (symbolAt (helper st') (sao_symbol ?dep))
       = sym_offset (symbolAt (helper (memberWithAlias 8 4)) 1) - sao_offset ?dep"
    "previous st' = insert (sao_symbol ?dep) (previous (memberWithAlias 8 4))"
    "case map_of (m_equivalenceBlock (helper (memberWithAlias 8 4))) (sao_symbol ?dep) of
       None \<Rightarrow> minSize st' = minSize (memberWithAlias 8 4)
               \<and> minAlignment st' = minAlignment (memberWithAlias 8 4)
     | Some blockInfo \<Rightarrow>
         minSize st' =
           max (minSize (memberWithAlias 8 4))
             (max (m_offset (helper (memberWithAlias 8 4)))
                (sym_offset (symbolAt (helper (memberWithAlias 8 4)) 1) - sao_offset ?dep
                   + sa_size blockInfo))
         \<and> minAlignment st' = max (minAlignment (memberWithAlias 8 4)) (sa_alignment blockInfo)"
    by blast
  from st'(5) have "minSize st' = 12 \<and> minAlignment st' = 4"
    unfolding block by (simp add: defs)
  moreover from st'(3) have "sym_offset (symbolAt (helper st') 2) = 4"
    by (simp add: defs)
  moreover from st'(4) have "previous st' = {2, 1}"
    by (simp add: defs)
  moreover from st'(2) have "FindCommonBlockContaining (helper st') 2 = Some 3" by simp
  ultimately have adopted:
    "\<exists>st'. associateCommonBlockObject (exampleTarget 8) 3 (memberWithAlias 8 4) 1 = Inr st'
          \<and> FindCommonBlockContaining (helper st') 2 = Some 3
          \<and> sym_offset (symbolAt (helper st') 2) = 4
          \<and> previous st' = {2, 1}
          \<and> minSize st' = 12 \<and> minAlignment st' = 4"
    using st'(1) by blast
  from associateCommonBlockObject_base_outside [OF dep nob, of 0 "exampleTarget 8" 3] before
  have refused: "associateCommonBlockObject (exampleTarget 8) 3 (memberWithAlias 0 4) 1
       = Inr ((memberWithAlias 0 4)
               \<lparr>helper := Say (CannotBackwardExtend ''c'' ''x'' ''c'' ''y'')
                            (helper (memberWithAlias 0 4))\<rparr>)"
    by (simp add: defs)
  show ?thesis
    using dep [of 8] nob [of 8] fits before adopted refused by simp
qed

section \<open>The dependency map\<close>

lemma map_of_insertEntry:
  "map_of m k = None \<Longrightarrow> map_of (insertEntry k v m) = (map_of m)(k \<mapsto> v)"
  by (induction m) (auto simp: fun_eq_iff split: if_splits)

lemma map_of_emplace:
  "map_of (emplace k v m) = (case map_of m k of None \<Rightarrow> (map_of m)(k \<mapsto> v) | Some _ \<Rightarrow> map_of m)"
  by (simp add: emplace_def map_of_insertEntry split: option.split)

lemma map_of_assign:
  "map_of (assign k v m) = (case map_of m k of None \<Rightarrow> map_of m | Some _ \<Rightarrow> (map_of m)(k \<mapsto> v))"
  by (induction m) (auto simp: fun_eq_iff split: option.split)

lemma set_insertEntry: "set (insertEntry k v m) = insert (k, v) (set m)"
  by (induction m) (auto split: if_splits)

lemma keys_insertEntry: "fst ` set (insertEntry k v m) = insert k (fst ` set m)"
  by (simp add: set_insertEntry)

lemma distinct_insertEntry:
  "distinct (map fst m) \<Longrightarrow> k \<notin> fst ` set m \<Longrightarrow> distinct (map fst (insertEntry k v m))"
  by (induction m) (auto simp: set_insertEntry)

lemma distinct_emplace: "distinct (map fst m) \<Longrightarrow> distinct (map fst (emplace k v m))"
  by (auto simp: emplace_def distinct_insertEntry map_of_eq_None_iff split: option.split)


lemma keys_assign [simp]: "map fst (assign k v m) = map fst m"
  by (induction m) auto

lemma Resolve_root:
  assumes "Resolve deps dep = Some r"
  shows "map_of deps (sao_symbol r) = None"
proof (rule Resolve.raw_induct [where P = "\<lambda>deps dep r. map_of deps (sao_symbol r) = None", OF _ assms])
  fix R deps dep r
  assume IH: "\<And>deps dep r. R deps dep = Some r \<Longrightarrow> map_of deps (sao_symbol r) = None"
    and body: "(case map_of deps (sao_symbol dep) of
                  None \<Rightarrow> Some dep
                | Some nxt \<Rightarrow>
                    Option.bind (R deps nxt)
                      (\<lambda>result. Some (result\<lparr>sao_offset := sao_offset result + sao_offset dep,
                                             sao_object := sao_object dep\<rparr>))) = Some r"
  show "map_of deps (sao_symbol r) = None"
  proof (cases "map_of deps (sao_symbol dep)")
    case None
    with body show ?thesis by simp
  next
    case (Some nxt)
    with body obtain r' where "R deps nxt = Some r'" "sao_symbol r = sao_symbol r'"
      by (auto simp: bind_eq_Some_conv)
    with IH show ?thesis by simp
  qed
qed

lemma Resolve_path:
  assumes "Resolve deps dep = Some r"
  shows "(sao_symbol dep, sao_symbol r) \<in> (edges deps)\<^sup>*"
proof (rule Resolve.raw_induct
         [where P = "\<lambda>deps dep r. (sao_symbol dep, sao_symbol r) \<in> (edges deps)\<^sup>*", OF _ assms])
  fix R deps dep r
  assume IH: "\<And>deps dep r. R deps dep = Some r \<Longrightarrow> (sao_symbol dep, sao_symbol r) \<in> (edges deps)\<^sup>*"
    and body: "(case map_of deps (sao_symbol dep) of
                  None \<Rightarrow> Some dep
                | Some nxt \<Rightarrow>
                    Option.bind (R deps nxt)
                      (\<lambda>result. Some (result\<lparr>sao_offset := sao_offset result + sao_offset dep,
                                             sao_object := sao_object dep\<rparr>))) = Some r"
  show "(sao_symbol dep, sao_symbol r) \<in> (edges deps)\<^sup>*"
  proof (cases "map_of deps (sao_symbol dep)")
    case None
    with body show ?thesis by simp
  next
    case (Some nxt)
    with body obtain r' where r': "R deps nxt = Some r'" "sao_symbol r = sao_symbol r'"
      by (auto simp: bind_eq_Some_conv)
    have "(sao_symbol dep, sao_symbol nxt) \<in> edges deps" using Some by (auto simp: edges_def)
    moreover have "(sao_symbol nxt, sao_symbol r') \<in> (edges deps)\<^sup>*" using IH r'(1) .
    ultimately show ?thesis using r'(2) by simp
  qed
qed

lemma finite_edges: "finite (edges deps)"
proof -
  have "edges deps \<subseteq> (\<lambda>(k, d). (k, sao_symbol d)) ` set deps"
    by (auto simp: edges_def image_iff dest!: map_of_SomeD)
  then show ?thesis by (rule finite_subset) simp
qed

lemma Resolve_terminates:
  assumes "acyclic (edges deps)"
  shows "\<exists>r. Resolve deps dep = Some r"
proof -
  have "wf ((edges deps)\<inverse>)"
    using assms finite_edges by (simp add: finite_acyclic_wf_converse)
  then show ?thesis
  proof (induction "sao_symbol dep" arbitrary: dep rule: wf_induct_rule)
    case less
    show ?case
    proof (cases "map_of deps (sao_symbol dep)")
      case None
      then show ?thesis by (subst Resolve.simps) simp
    next
      case (Some nxt)
      then have "(sao_symbol nxt, sao_symbol dep) \<in> (edges deps)\<inverse>" by (auto simp: edges_def)
      then obtain r where "Resolve deps nxt = Some r" using less by blast
      then show ?thesis using Some by (subst Resolve.simps) simp
    qed
  qed
qed



section \<open>Equivalence sets\<close>

lemma lastMaximal_snoc:
  assumes "lastMaximal sos rep"
  shows "lastMaximal (sos @ [so])
           (case rep of
              None \<Rightarrow> Some (length (sos @ [so]) - 1)
            | Some r \<Rightarrow> if sao_offset ((sos @ [so]) ! r) \<le> sao_offset so
                        then Some (length (sos @ [so]) - 1) else Some r)"
proof (cases rep)
  case None
  with assms show ?thesis by (simp add: lastMaximal_def)
next
  case (Some r)
  with assms have r: "r < length sos"
    and mx: "\<And>j. j < length sos \<Longrightarrow> sao_offset (sos ! j) \<le> sao_offset (sos ! r)"
    and st: "\<And>j. j < length sos \<Longrightarrow> r < j \<Longrightarrow> sao_offset (sos ! j) < sao_offset (sos ! r)"
    by (auto simp: lastMaximal_def)
  show ?thesis
  proof (cases "sao_offset (sos ! r) \<le> sao_offset so")
    case True
    have "sao_offset ((sos @ [so]) ! j) \<le> sao_offset so" if "j < Suc (length sos)" for j
      using that mx [of j] True by (cases "j = length sos") (auto simp: nth_append)
    then show ?thesis using Some True r by (simp add: lastMaximal_def nth_append)
  next
    case False
    then have lt: "sao_offset so < sao_offset (sos ! r)" by (simp add: not_le)
    have "sao_offset ((sos @ [so]) ! j) \<le> sao_offset (sos ! r)" if "j < Suc (length sos)" for j
      using that mx [of j] lt by (cases "j = length sos") (auto simp: nth_append)
    moreover have "sao_offset ((sos @ [so]) ! j) < sao_offset (sos ! r)"
      if "j < Suc (length sos)" "r < j" for j
      using that st [of j] lt by (cases "j = length sos") (auto simp: nth_append)
    ultimately show ?thesis using Some False r by (simp add: lastMaximal_def nth_append)
  qed
qed

lemma resolveObjects_result:
  assumes "resolveObjects tc h objs sos rep = Inr (sos', rep')" "lastMaximal sos rep"
  shows "\<exists>new. sos' = sos @ new \<and> list_all2 (resolvesTo tc h) objs new \<and> lastMaximal sos' rep'"
  using assms
proof (induction objs arbitrary: sos rep)
  case Nil
  then show ?case by simp
next
  case (Cons object rest)
  from Cons.prems(1) obtain offset where off: "ComputeOffset tc h object = Inr offset"
    by (auto split: sum.splits)
  with Cons.prems(1) obtain resolved where res:
    "Resolve (m_dependents h)
       \<lparr>sao_symbol = eo_symbol object, sao_offset = offset, sao_object = object\<rparr> = Some resolved"
    by (auto split: option.splits)
  let ?rep = "case rep of
                None \<Rightarrow> Some (length (sos @ [resolved]) - 1)
              | Some r \<Rightarrow> if sao_offset ((sos @ [resolved]) ! r) \<le> sao_offset resolved
                          then Some (length (sos @ [resolved]) - 1) else Some r"
  have run: "resolveObjects tc h rest (sos @ [resolved]) ?rep = Inr (sos', rep')"
    using Cons.prems(1) off res by (simp add: Let_def)
  have "lastMaximal (sos @ [resolved]) ?rep"
    using Cons.prems(2) by (rule lastMaximal_snoc)
  from Cons.IH [OF run this] obtain new where
    new: "sos' = (sos @ [resolved]) @ new" "list_all2 (resolvesTo tc h) rest new"
         "lastMaximal sos' rep'"
    by blast
  have "resolvesTo tc h object resolved" using off res by (auto simp: resolvesTo_def)
  with new show ?case by (intro exI [of _ "resolved # new"]) simp
qed


lemma conflictMessage_cong:
  assumes "symbols (m_context h') = symbols (m_context h)"
  shows "conflictMessage tc h' = conflictMessage tc h"
proof -
  have "symbolAt h' = symbolAt h" using assms by (intro ext) (simp add: symbolAt_def)
  then show ?thesis by (intro ext) (simp add: conflictMessage_def split: option.split)
qed

lemma recordDependents_frame:
  "symbols (m_context (recordDependents tc base h sos)) = symbols (m_context h)"
  "mappedCommonBlocks (m_context (recordDependents tc base h sos)) = mappedCommonBlocks (m_context h)"
  "m_offset (recordDependents tc base h sos) = m_offset h"
  "m_alignment (recordDependents tc base h sos) = m_alignment h"
  "m_equivalenceBlock (recordDependents tc base h sos) = m_equivalenceBlock h"
  by (induction sos arbitrary: h; simp add: Say_def)+

lemma recordDependents_messages:
  "messages (m_context (recordDependents tc base h sos))
     = messages (m_context h) @ map (conflictMessage tc h base) (filter (conflictsWith base) sos)"
proof (induction sos arbitrary: h)
  case Nil
  then show ?case by simp
next
  case (Cons so rest)
  let ?h' = "if sao_symbol so = sao_symbol base then
               (if sao_offset so \<noteq> sao_offset base then Say (conflictMessage tc h base so) h else h)
             else h\<lparr>m_dependents := emplace (sao_symbol so)
                      \<lparr>sao_symbol = sao_symbol base, sao_offset = sao_offset base - sao_offset so,
                       sao_object = sao_object so\<rparr> (m_dependents h)\<rparr>"
  have "symbols (m_context ?h') = symbols (m_context h)" by (simp add: Say_def)
  then have "conflictMessage tc ?h' = conflictMessage tc h" by (rule conflictMessage_cong)
  moreover have "messages (m_context ?h')
                   = messages (m_context h) @ map (conflictMessage tc h base) (filter (conflictsWith base) [so])"
    by (simp add: conflictsWith_def)
  ultimately show ?case
    using Cons.IH [of ?h'] by (simp del: Say_fields)
qed

lemma recordDependents_map_of:
  "map_of (m_dependents (recordDependents tc base h sos)) k
     = (case map_of (m_dependents h) k of
          Some d \<Rightarrow> Some d
        | None \<Rightarrow>
            if k = sao_symbol base then None
            else map_option (aliasOf base) (List.find (\<lambda>so. sao_symbol so = k) sos))"
proof (induction sos arbitrary: h)
  case Nil
  then show ?case by (simp split: option.split)
next
  case (Cons so rest)
  show ?case
    by (simp add: Cons.IH map_of_emplace aliasOf_def split: option.split)
qed

lemma recordDependents_distinct:
  "distinct (map fst (m_dependents h))
     \<Longrightarrow> distinct (map fst (m_dependents (recordDependents tc base h sos)))"
  by (induction sos arbitrary: h) (simp_all add: distinct_emplace)


lemma DoEquivalenceSet_result:
  assumes "DoEquivalenceSet tc h eqset = Inr h'"
  obtains symbolOffsets r where
    "resolveObjects tc h eqset [] None = Inr (symbolOffsets, Some r)"
    "list_all2 (resolvesTo tc h) eqset symbolOffsets"
    "lastMaximal symbolOffsets (Some r)"
    "h' = recordDependents tc (symbolOffsets ! r) h symbolOffsets"
proof -
  from assms obtain symbolOffsets r where
    run: "resolveObjects tc h eqset [] None = Inr (symbolOffsets, Some r)"
    and h': "h' = recordDependents tc (symbolOffsets ! r) h symbolOffsets"
    by (auto simp: DoEquivalenceSet_def split: sum.splits option.splits)
  have "lastMaximal [] None" by (simp add: lastMaximal_def)
  from resolveObjects_result [OF run this]
  have res: "list_all2 (resolvesTo tc h) eqset symbolOffsets"
    and mx: "lastMaximal symbolOffsets (Some r)"
    by simp_all
  show ?thesis by (rule that [OF run res mx h'])
qed

lemma resolvesTo_root:
  "resolvesTo tc h object so \<Longrightarrow> map_of (m_dependents h) (sao_symbol so) = None"
  by (auto simp: resolvesTo_def dest: Resolve_root split: sum.splits)


lemmas example_defs = exampleTarget_def newHelper_def contextOf_def arraysAB_def symbolAt_def
  scalarSymbol_def objectSymbol_def wholeObject_def elementObject_def

lemma Resolve_no_dependents: "Resolve [] dep = Some dep"
  by (subst Resolve.simps) simp

lemma resolveObjects_tie:
  "resolveObjects (exampleTarget 8) (newHelper (contextOf arraysAB))
     [wholeObject 1 ''a'', wholeObject 2 ''b''] [] None
   = Inr ([\<lparr>sao_symbol = 1, sao_offset = 0, sao_object = wholeObject 1 ''a''\<rparr>,
           \<lparr>sao_symbol = 2, sao_offset = 0, sao_object = wholeObject 2 ''b''\<rparr>], Some 1)"
  by (simp add: example_defs ComputeOffset_def GetSizeAndAlignment_def Resolve_no_dependents)

lemma resolveObjects_A3B1:
  "resolveObjects (exampleTarget 8) (newHelper (contextOf arraysAB))
     [elementObject 1 [3] ''a(3)'', elementObject 2 [1] ''b(1)''] [] None
   = Inr ([\<lparr>sao_symbol = 1, sao_offset = 8, sao_object = elementObject 1 [3] ''a(3)''\<rparr>,
           \<lparr>sao_symbol = 2, sao_offset = 0, sao_object = elementObject 2 [1] ''b(1)''\<rparr>], Some 0)"
  by (simp add: example_defs ComputeOffset_def GetSizeAndAlignment_def Resolve_no_dependents
        lboundAt_def uboundAt_def)

lemma DoEquivalenceSet_A3B1:
  "DoEquivalenceSet (exampleTarget 8) (newHelper (contextOf arraysAB))
     [elementObject 1 [3] ''a(3)'', elementObject 2 [1] ''b(1)'']
   = Inr ((newHelper (contextOf arraysAB))
            \<lparr>m_dependents :=
               [(2, \<lparr>sao_symbol = 1, sao_offset = 8,
                     sao_object = elementObject 2 [1] ''b(1)''\<rparr>)]\<rparr>)"
  by (simp only: DoEquivalenceSet_def resolveObjects_A3B1) (simp add: emplace_def newHelper_def)

text \<open>
  C1, as the claim states it, fails on a tie: in \<open>EQUIVALENCE (a, b)\<close> both objects resolve
  to offset 0; the first-seen maximal object is \<open>a\<close>, at index 0, but the test of line 316
  is \<open>>=\<close>, so the representative is \<open>b\<close>, at index 1, and it is \<open>a\<close> that is recorded as
  depending on \<open>b\<close>.
\<close>

theorem representative_tie_counterexample:
  "resolveObjects (exampleTarget 8) (newHelper (contextOf arraysAB))
     [wholeObject 1 ''a'', wholeObject 2 ''b''] [] None
   = Inr ([\<lparr>sao_symbol = 1, sao_offset = 0, sao_object = wholeObject 1 ''a''\<rparr>,
           \<lparr>sao_symbol = 2, sao_offset = 0, sao_object = wholeObject 2 ''b''\<rparr>], Some 1)
   \<and> firstMaximal [\<lparr>sao_symbol = 1, sao_offset = 0, sao_object = wholeObject 1 ''a''\<rparr>,
                   \<lparr>sao_symbol = 2, sao_offset = 0, sao_object = wholeObject 2 ''b''\<rparr>] = Some 0
   \<and> DoEquivalenceSet (exampleTarget 8) (newHelper (contextOf arraysAB))
        [wholeObject 1 ''a'', wholeObject 2 ''b'']
      = Inr ((newHelper (contextOf arraysAB))
               \<lparr>m_dependents :=
                  [(1, \<lparr>sao_symbol = 2, sao_offset = 0, sao_object = wholeObject 1 ''a''\<rparr>)]\<rparr>)"
proof -
  have "DoEquivalenceSet (exampleTarget 8) (newHelper (contextOf arraysAB))
          [wholeObject 1 ''a'', wholeObject 2 ''b'']
        = Inr ((newHelper (contextOf arraysAB))
                 \<lparr>m_dependents :=
                    [(1, \<lparr>sao_symbol = 2, sao_offset = 0, sao_object = wholeObject 1 ''a''\<rparr>)]\<rparr>)"
    by (simp only: DoEquivalenceSet_def resolveObjects_tie) (simp add: emplace_def newHelper_def)
  moreover have
    "firstMaximal [\<lparr>sao_symbol = 1, sao_offset = 0, sao_object = wholeObject 1 ''a''\<rparr>,
                   \<lparr>sao_symbol = 2, sao_offset = 0, sao_object = wholeObject 2 ''b''\<rparr>] = Some 0"
    by (simp add: firstMaximal_def)
  ultimately show ?thesis using resolveObjects_tie by (intro conjI)
qed

text \<open>
  C1, amended: when \<open>DoEquivalenceSet\<close> returns, the representative is a member with the
  maximum resolved offset, and among those that tie the last-seen one. Every other member
  that resolves to a symbol other than that of the representative has that symbol in the
  dependency map, depending on the symbol of the representative; and for the first member
  of the set that resolves to a given symbol, the entry is the offset of the
  representative minus the offset of the member, which does not wrap around.
\<close>

theorem DoEquivalenceSet_representative:
  assumes "DoEquivalenceSet tc h eqset = Inr h'"
  shows "\<exists>symbolOffsets r.
           resolveObjects tc h eqset [] None = Inr (symbolOffsets, Some r)
         \<and> list_all2 (resolvesTo tc h) eqset symbolOffsets
         \<and> lastMaximal symbolOffsets (Some r)
         \<and> (\<forall>i < length symbolOffsets.
               sao_symbol (symbolOffsets ! i) \<noteq> sao_symbol (symbolOffsets ! r) \<longrightarrow>
                 (\<exists>d. map_of (m_dependents h') (sao_symbol (symbolOffsets ! i)) = Some d
                       \<and> sao_symbol d = sao_symbol (symbolOffsets ! r))
               \<and> ((\<forall>j < i. sao_symbol (symbolOffsets ! j) \<noteq> sao_symbol (symbolOffsets ! i)) \<longrightarrow>
                    map_of (m_dependents h') (sao_symbol (symbolOffsets ! i))
                      = Some (aliasOf (symbolOffsets ! r) (symbolOffsets ! i))
                    \<and> unat (sao_offset (aliasOf (symbolOffsets ! r) (symbolOffsets ! i)))
                        = unat (sao_offset (symbolOffsets ! r)) - unat (sao_offset (symbolOffsets ! i))
                    \<and> unat (sao_offset (symbolOffsets ! i)) \<le> unat (sao_offset (symbolOffsets ! r))))"
proof -
  from assms obtain sos r where
    run: "resolveObjects tc h eqset [] None = Inr (sos, Some r)"
    and res: "list_all2 (resolvesTo tc h) eqset sos"
    and mx: "lastMaximal sos (Some r)"
    and h': "h' = recordDependents tc (sos ! r) h sos"
    by (rule DoEquivalenceSet_result)
  have "(\<exists>d. map_of (m_dependents h') (sao_symbol (sos ! i)) = Some d
              \<and> sao_symbol d = sao_symbol (sos ! r))
        \<and> ((\<forall>j < i. sao_symbol (sos ! j) \<noteq> sao_symbol (sos ! i)) \<longrightarrow>
              map_of (m_dependents h') (sao_symbol (sos ! i)) = Some (aliasOf (sos ! r) (sos ! i))
              \<and> unat (sao_offset (aliasOf (sos ! r) (sos ! i)))
                  = unat (sao_offset (sos ! r)) - unat (sao_offset (sos ! i))
              \<and> unat (sao_offset (sos ! i)) \<le> unat (sao_offset (sos ! r)))"
    if i: "i < length sos" and other: "sao_symbol (sos ! i) \<noteq> sao_symbol (sos ! r)" for i
  proof -
    let ?k = "sao_symbol (sos ! i)"
    have "resolvesTo tc h (eqset ! i) (sos ! i)"
      using res i by (simp add: list_all2_conv_all_nth)
    then have root: "map_of (m_dependents h) ?k = None" by (rule resolvesTo_root)
    have lookup: "map_of (m_dependents h') ?k
                    = map_option (aliasOf (sos ! r)) (List.find (\<lambda>so. sao_symbol so = ?k) sos)"
      using root other by (simp add: h' recordDependents_map_of)
    have "sos ! i \<in> set sos" using i by simp
    then obtain so where so: "List.find (\<lambda>so. sao_symbol so = ?k) sos = Some so"
      by (cases "List.find (\<lambda>so. sao_symbol so = ?k) sos") (auto simp: find_None_iff)
    have first: "\<exists>d. map_of (m_dependents h') ?k = Some d \<and> sao_symbol d = sao_symbol (sos ! r)"
      using lookup so by (simp add: aliasOf_def)
    have le: "sao_offset (sos ! i) \<le> sao_offset (sos ! r)"
      using mx i by (simp add: lastMaximal_def)
    have "List.find (\<lambda>so. sao_symbol so = ?k) sos = Some (sos ! i)"
      if "\<forall>j < i. sao_symbol (sos ! j) \<noteq> ?k"
      using that i by (auto simp: find_Some_iff)
    then have "map_of (m_dependents h') ?k = Some (aliasOf (sos ! r) (sos ! i))"
      if "\<forall>j < i. sao_symbol (sos ! j) \<noteq> ?k"
      using that lookup by simp
    moreover have "unat (sao_offset (aliasOf (sos ! r) (sos ! i)))
                     = unat (sao_offset (sos ! r)) - unat (sao_offset (sos ! i))"
      using le by (simp add: aliasOf_def unat_sub)
    moreover have "unat (sao_offset (sos ! i)) \<le> unat (sao_offset (sos ! r))"
      using le by (simp add: word_le_nat_alt)
    ultimately show ?thesis using first by blast
  qed
  with run res mx show ?thesis by blast
qed



theorem DoEquivalenceSet_representative_witness:
  "DoEquivalenceSet (exampleTarget 8) (newHelper (contextOf arraysAB))
     [elementObject 1 [3] ''a(3)'', elementObject 2 [1] ''b(1)'']
   = Inr ((newHelper (contextOf arraysAB))
            \<lparr>m_dependents :=
               [(2, \<lparr>sao_symbol = 1, sao_offset = 8,
                     sao_object = elementObject 2 [1] ''b(1)''\<rparr>)]\<rparr>)
   \<and> lastMaximal
         [\<lparr>sao_symbol = 1, sao_offset = 8, sao_object = elementObject 1 [3] ''a(3)''\<rparr>,
          \<lparr>sao_symbol = 2, sao_offset = 0, sao_object = elementObject 2 [1] ''b(1)''\<rparr>] (Some 0)
   \<and> map_of (m_dependents ((newHelper (contextOf arraysAB))
            \<lparr>m_dependents :=
               [(2, \<lparr>sao_symbol = 1, sao_offset = 8,
                     sao_object = elementObject 2 [1] ''b(1)''\<rparr>)]\<rparr>)) 2
       = Some (aliasOf
                 \<lparr>sao_symbol = 1, sao_offset = 8, sao_object = elementObject 1 [3] ''a(3)''\<rparr>
                 \<lparr>sao_symbol = 2, sao_offset = 0, sao_object = elementObject 2 [1] ''b(1)''\<rparr>)"
proof -
  let ?a = "\<lparr>sao_symbol = 1, sao_offset = 8, sao_object = elementObject 1 [3] ''a(3)''\<rparr>"
  let ?b = "\<lparr>sao_symbol = 2, sao_offset = 0, sao_object = elementObject 2 [1] ''b(1)''\<rparr>"
  let ?h' = "(newHelper (contextOf arraysAB))
               \<lparr>m_dependents :=
                  [(2, \<lparr>sao_symbol = 1, sao_offset = 8,
                        sao_object = elementObject 2 [1] ''b(1)''\<rparr>)]\<rparr>"
  from DoEquivalenceSet_representative [OF DoEquivalenceSet_A3B1, unfolded resolveObjects_A3B1]
  obtain symbolOffsets r where
    same: "Inr ([?a, ?b], Some (0::nat)) = (Inr (symbolOffsets, Some r) :: error + _)"
    and mx: "lastMaximal symbolOffsets (Some r)"
    and rec: "\<forall>i < length symbolOffsets.
               sao_symbol (symbolOffsets ! i) \<noteq> sao_symbol (symbolOffsets ! r) \<longrightarrow>
                 (\<exists>d. map_of (m_dependents ?h') (sao_symbol (symbolOffsets ! i)) = Some d
                       \<and> sao_symbol d = sao_symbol (symbolOffsets ! r))
               \<and> ((\<forall>j < i. sao_symbol (symbolOffsets ! j) \<noteq> sao_symbol (symbolOffsets ! i)) \<longrightarrow>
                    map_of (m_dependents ?h') (sao_symbol (symbolOffsets ! i))
                      = Some (aliasOf (symbolOffsets ! r) (symbolOffsets ! i))
                    \<and> unat (sao_offset (aliasOf (symbolOffsets ! r) (symbolOffsets ! i)))
                        = unat (sao_offset (symbolOffsets ! r)) - unat (sao_offset (symbolOffsets ! i))
                    \<and> unat (sao_offset (symbolOffsets ! i)) \<le> unat (sao_offset (symbolOffsets ! r)))"
    by blast
  from same have eq: "symbolOffsets = [?a, ?b]" "r = 0" by simp_all
  from mx have "lastMaximal [?a, ?b] (Some 0)" by (simp only: eq)
  moreover from rec [rule_format, of 1]
  have "map_of (m_dependents ?h') 2 = Some (aliasOf ?a ?b)"
    by (simp add: eq)
  ultimately show ?thesis using DoEquivalenceSet_A3B1 by (intro conjI)
qed

section \<open>Conflicting objects of an equivalence set\<close>

lemma resolveObjects_A1A2B5:
  "resolveObjects (exampleTarget 8) (newHelper (contextOf arraysAB))
     [elementObject 1 [1] ''a(1)'', elementObject 1 [2] ''a(2)'', elementObject 2 [5] ''b(5)'']
     [] None
   = Inr ([\<lparr>sao_symbol = 1, sao_offset = 0, sao_object = elementObject 1 [1] ''a(1)''\<rparr>,
           \<lparr>sao_symbol = 1, sao_offset = 4, sao_object = elementObject 1 [2] ''a(2)''\<rparr>,
           \<lparr>sao_symbol = 2, sao_offset = 16, sao_object = elementObject 2 [5] ''b(5)''\<rparr>],
          Some 2)"
  by (simp add: example_defs ComputeOffset_def GetSizeAndAlignment_def Resolve_no_dependents
        lboundAt_def uboundAt_def)

lemma DoEquivalenceSet_A1A2:
  "DoEquivalenceSet (exampleTarget 8) (newHelper (contextOf arraysAB))
     [elementObject 1 [1] ''a(1)'', elementObject 1 [2] ''a(2)'']
   = Inr (Say (SameFirstStorageUnitOffsets ''a(2)'' ''a'' 4 0 ''a(1)'')
            (newHelper (contextOf arraysAB)))"
  by (simp add: DoEquivalenceSet_def example_defs ComputeOffset_def GetSizeAndAlignment_def
        Resolve_no_dependents lboundAt_def uboundAt_def conflictMessage_def Say_def)

text \<open>
  C2: the code breaks the claim. In \<open>EQUIVALENCE (a(1), a(2), b(5))\<close>, with \<open>REAL a(10)\<close>
  and \<open>INTEGER b(5)\<close>, the first two objects resolve to the symbol \<open>a\<close> at the offsets 0
  and 4. The representative is \<open>b(5)\<close>, lines 326 and 327 compare each object with the
  representative only, and the \<open>emplace\<close> of line 350 finds the key of \<open>a\<close> when it comes
  to \<open>a(2)\<close>: \<open>a\<close> is recorded as depending on \<open>b\<close> at 16, \<open>a(2)\<close> is dropped, and
  nothing is said. The same two objects alone, \<open>EQUIVALENCE (a(1), a(2))\<close>, are reported
  by lines 328 to 347.
\<close>

theorem conflict_missed_behind_representative:
  "resolveObjects (exampleTarget 8) (newHelper (contextOf arraysAB))
     [elementObject 1 [1] ''a(1)'', elementObject 1 [2] ''a(2)'', elementObject 2 [5] ''b(5)'']
     [] None
   = Inr ([\<lparr>sao_symbol = 1, sao_offset = 0, sao_object = elementObject 1 [1] ''a(1)''\<rparr>,
           \<lparr>sao_symbol = 1, sao_offset = 4, sao_object = elementObject 1 [2] ''a(2)''\<rparr>,
           \<lparr>sao_symbol = 2, sao_offset = 16, sao_object = elementObject 2 [5] ''b(5)''\<rparr>],
          Some 2)
   \<and> DoEquivalenceSet (exampleTarget 8) (newHelper (contextOf arraysAB))
        [elementObject 1 [1] ''a(1)'', elementObject 1 [2] ''a(2)'', elementObject 2 [5] ''b(5)'']
      = Inr ((newHelper (contextOf arraysAB))
               \<lparr>m_dependents :=
                  [(1, \<lparr>sao_symbol = 2, sao_offset = 16,
                        sao_object = elementObject 1 [1] ''a(1)''\<rparr>)]\<rparr>)
   \<and> messages (m_context ((newHelper (contextOf arraysAB))
               \<lparr>m_dependents :=
                  [(1, \<lparr>sao_symbol = 2, sao_offset = 16,
                        sao_object = elementObject 1 [1] ''a(1)''\<rparr>)]\<rparr>)) = []
   \<and> DoEquivalenceSet (exampleTarget 8) (newHelper (contextOf arraysAB))
        [elementObject 1 [1] ''a(1)'', elementObject 1 [2] ''a(2)'']
      = Inr (Say (SameFirstStorageUnitOffsets ''a(2)'' ''a'' 4 0 ''a(1)'')
               (newHelper (contextOf arraysAB)))"
proof -
  have "DoEquivalenceSet (exampleTarget 8) (newHelper (contextOf arraysAB))
          [elementObject 1 [1] ''a(1)'', elementObject 1 [2] ''a(2)'', elementObject 2 [5] ''b(5)'']
        = Inr ((newHelper (contextOf arraysAB))
                 \<lparr>m_dependents :=
                    [(1, \<lparr>sao_symbol = 2, sao_offset = 16,
                          sao_object = elementObject 1 [1] ''a(1)''\<rparr>)]\<rparr>)"
    by (simp only: DoEquivalenceSet_def resolveObjects_A1A2B5)
       (simp add: emplace_def newHelper_def)
  moreover have "messages (m_context ((newHelper (contextOf arraysAB))
               \<lparr>m_dependents :=
                  [(1, \<lparr>sao_symbol = 2, sao_offset = 16,
                        sao_object = elementObject 1 [1] ''a(1)''\<rparr>)]\<rparr>)) = []"
    by (simp add: newHelper_def contextOf_def)
  ultimately show ?thesis using resolveObjects_A1A2B5 DoEquivalenceSet_A1A2 by (intro conjI)
qed

text \<open>
  What the second loop does say: when \<open>DoEquivalenceSet\<close> returns, it has said one error
  for each member that resolves to the symbol of the representative at another offset, in
  the order of the set and after the messages that were there: with both designators when
  \<open>OffsetToDesignator\<close> gives them, and with the name of the symbol and both offsets
  otherwise. The symbol of the representative has no entry in the dependency map, every
  entry that was in the map is unchanged, and so are the symbols (their offsets and
  sizes), the offset and the alignment of the helper, and the equivalence blocks.
\<close>

lemma DoEquivalenceSet_reports:
  assumes "DoEquivalenceSet tc h eqset = Inr h'"
  shows "\<exists>symbolOffsets r.
           resolveObjects tc h eqset [] None = Inr (symbolOffsets, Some r)
         \<and> r < length symbolOffsets
         \<and> messages (m_context h')
             = messages (m_context h)
               @ map (conflictMessage tc h (symbolOffsets ! r))
                   (filter (conflictsWith (symbolOffsets ! r)) symbolOffsets)
         \<and> (\<forall>so x y. OffsetToDesignator tc (sao_symbol so) (sao_offset (symbolOffsets ! r)) = Some x
                \<longrightarrow> OffsetToDesignator tc (sao_symbol so) (sao_offset so) = Some y
                \<longrightarrow> conflictMessage tc h (symbolOffsets ! r) so
                      = SameFirstStorageUnit (eo_source (sao_object (symbolOffsets ! r))) x y
                          (eo_source (sao_object so)))
         \<and> (\<forall>so. OffsetToDesignator tc (sao_symbol so) (sao_offset (symbolOffsets ! r)) = None
                   \<or> OffsetToDesignator tc (sao_symbol so) (sao_offset so) = None
                \<longrightarrow> conflictMessage tc h (symbolOffsets ! r) so
                      = SameFirstStorageUnitOffsets (eo_source (sao_object (symbolOffsets ! r)))
                          (sym_name (symbolAt h (sao_symbol so)))
                          (sao_offset (symbolOffsets ! r)) (sao_offset so)
                          (eo_source (sao_object so)))
         \<and> map_of (m_dependents h') (sao_symbol (symbolOffsets ! r)) = None
         \<and> (\<forall>k d. map_of (m_dependents h) k = Some d \<longrightarrow> map_of (m_dependents h') k = Some d)
         \<and> symbols (m_context h') = symbols (m_context h)
         \<and> m_offset h' = m_offset h \<and> m_alignment h' = m_alignment h
         \<and> m_equivalenceBlock h' = m_equivalenceBlock h"
proof -
  from assms obtain sos r where
    run: "resolveObjects tc h eqset [] None = Inr (sos, Some r)"
    and res: "list_all2 (resolvesTo tc h) eqset sos"
    and mx: "lastMaximal sos (Some r)"
    and h': "h' = recordDependents tc (sos ! r) h sos"
    by (rule DoEquivalenceSet_result)
  have r: "r < length sos" using mx by (simp add: lastMaximal_def)
  then have "resolvesTo tc h (eqset ! r) (sos ! r)"
    using res by (simp add: list_all2_conv_all_nth)
  then have root: "map_of (m_dependents h) (sao_symbol (sos ! r)) = None"
    by (rule resolvesTo_root)
  have msgs: "messages (m_context h')
                = messages (m_context h)
                  @ map (conflictMessage tc h (sos ! r)) (filter (conflictsWith (sos ! r)) sos)"
    by (simp only: h' recordDependents_messages)
  have both: "conflictMessage tc h (sos ! r) so
                = SameFirstStorageUnit (eo_source (sao_object (sos ! r))) x y
                    (eo_source (sao_object so))"
    if "OffsetToDesignator tc (sao_symbol so) (sao_offset (sos ! r)) = Some x"
       "OffsetToDesignator tc (sao_symbol so) (sao_offset so) = Some y" for so x y
    using that by (simp add: conflictMessage_def)
  have fallback: "conflictMessage tc h (sos ! r) so
                = SameFirstStorageUnitOffsets (eo_source (sao_object (sos ! r)))
                    (sym_name (symbolAt h (sao_symbol so))) (sao_offset (sos ! r)) (sao_offset so)
                    (eo_source (sao_object so))"
    if "OffsetToDesignator tc (sao_symbol so) (sao_offset (sos ! r)) = None
        \<or> OffsetToDesignator tc (sao_symbol so) (sao_offset so) = None" for so
    using that by (auto simp: conflictMessage_def split: option.split)
  have nobase: "map_of (m_dependents h') (sao_symbol (sos ! r)) = None"
    using root by (simp add: h' recordDependents_map_of)
  have kept: "map_of (m_dependents h') k = Some d" if "map_of (m_dependents h) k = Some d" for k d
    using that by (simp add: h' recordDependents_map_of)
  have frame: "symbols (m_context h') = symbols (m_context h)" "m_offset h' = m_offset h"
    "m_alignment h' = m_alignment h" "m_equivalenceBlock h' = m_equivalenceBlock h"
    by (simp_all only: h' recordDependents_frame)
  show ?thesis
    using run r msgs both fallback nobase kept frame by blast
qed

lemma Resolve_afterA1B1_a:
  "Resolve (m_dependents afterA1B1)
     \<lparr>sao_symbol = 1, sao_offset = 4, sao_object = elementObject 1 [2] ''a(2)''\<rparr>
   = Some \<lparr>sao_symbol = 2, sao_offset = 4, sao_object = elementObject 1 [2] ''a(2)''\<rparr>"
  by (subst Resolve.simps, simp add: afterA1B1_def, subst Resolve.simps, simp)

lemma Resolve_afterA1B1_b:
  "Resolve (m_dependents afterA1B1)
     \<lparr>sao_symbol = 2, sao_offset = 0, sao_object = elementObject 2 [1] ''b(1)''\<rparr>
   = Some \<lparr>sao_symbol = 2, sao_offset = 0, sao_object = elementObject 2 [1] ''b(1)''\<rparr>"
  by (subst Resolve.simps, simp add: afterA1B1_def)

lemma ComputeOffset_afterA1B1:
  "ComputeOffset (exampleTarget 8) afterA1B1 (elementObject 1 [2] ''a(2)'') = Inr 4"
  "ComputeOffset (exampleTarget 8) afterA1B1 (elementObject 2 [1] ''b(1)'') = Inr 0"
  by (simp_all add: afterA1B1_def example_defs ComputeOffset_def GetSizeAndAlignment_def
        lboundAt_def uboundAt_def)

lemma resolveObjects_A2B1:
  "resolveObjects (exampleTarget 8) afterA1B1
     [elementObject 1 [2] ''a(2)'', elementObject 2 [1] ''b(1)''] [] None
   = Inr ([\<lparr>sao_symbol = 2, sao_offset = 4, sao_object = elementObject 1 [2] ''a(2)''\<rparr>,
           \<lparr>sao_symbol = 2, sao_offset = 0, sao_object = elementObject 2 [1] ''b(1)''\<rparr>],
          Some 0)"
proof -
  have s: "eo_symbol (elementObject 1 [2] ''a(2)'') = 1"
    "eo_symbol (elementObject 2 [1] ''b(1)'') = 2"
    by (simp_all add: elementObject_def)
  show ?thesis
    by (simp add: ComputeOffset_afterA1B1 s Resolve_afterA1B1_a Resolve_afterA1B1_b
          del: One_nat_def)
qed

lemma DoEquivalenceSet_A2B1:
  "DoEquivalenceSet (exampleTarget 8) afterA1B1
     [elementObject 1 [2] ''a(2)'', elementObject 2 [1] ''b(1)'']
   = Inr (Say (SameFirstStorageUnitOffsets ''a(2)'' ''b'' 4 0 ''b(1)'') afterA1B1)"
  by (simp only: DoEquivalenceSet_def resolveObjects_A2B1)
     (simp add: conflictMessage_def exampleTarget_def afterA1B1_def example_defs)

lemma DoEquivalenceSet_reports_example:
  "DoEquivalenceSet (exampleTarget 8) afterA1B1
     [elementObject 1 [2] ''a(2)'', elementObject 2 [1] ''b(1)'']
   = Inr (Say (SameFirstStorageUnitOffsets ''a(2)'' ''b'' 4 0 ''b(1)'') afterA1B1)
   \<and> messages (m_context (Say (SameFirstStorageUnitOffsets ''a(2)'' ''b'' 4 0 ''b(1)'') afterA1B1))
       = messages (m_context afterA1B1)
         @ map (conflictMessage (exampleTarget 8) afterA1B1
                  \<lparr>sao_symbol = 2, sao_offset = 4, sao_object = elementObject 1 [2] ''a(2)''\<rparr>)
             [\<lparr>sao_symbol = 2, sao_offset = 0, sao_object = elementObject 2 [1] ''b(1)''\<rparr>]
   \<and> map_of (m_dependents (Say (SameFirstStorageUnitOffsets ''a(2)'' ''b'' 4 0 ''b(1)'') afterA1B1)) 2
       = None
   \<and> map_of (m_dependents (Say (SameFirstStorageUnitOffsets ''a(2)'' ''b'' 4 0 ''b(1)'') afterA1B1)) 1
       = map_of (m_dependents afterA1B1) 1"
proof -
  let ?a = "\<lparr>sao_symbol = 2, sao_offset = 4, sao_object = elementObject 1 [2] ''a(2)''\<rparr>"
  let ?b = "\<lparr>sao_symbol = 2, sao_offset = 0, sao_object = elementObject 2 [1] ''b(1)''\<rparr>"
  let ?h' = "Say (SameFirstStorageUnitOffsets ''a(2)'' ''b'' 4 0 ''b(1)'') afterA1B1"
  from DoEquivalenceSet_reports [OF DoEquivalenceSet_A2B1, unfolded resolveObjects_A2B1]
  obtain symbolOffsets r where
    same: "Inr ([?a, ?b], Some (0::nat)) = (Inr (symbolOffsets, Some r) :: error + _)"
    and msgs: "messages (m_context ?h')
             = messages (m_context afterA1B1)
               @ map (conflictMessage (exampleTarget 8) afterA1B1 (symbolOffsets ! r))
                   (filter (conflictsWith (symbolOffsets ! r)) symbolOffsets)"
    and nobase: "map_of (m_dependents ?h') (sao_symbol (symbolOffsets ! r)) = None"
    and kept: "\<forall>k d. map_of (m_dependents afterA1B1) k = Some d
                 \<longrightarrow> map_of (m_dependents ?h') k = Some d"
    by blast
  from same have eq: "symbolOffsets = [?a, ?b]" "r = 0" by simp_all
  from msgs have "messages (m_context ?h')
       = messages (m_context afterA1B1) @ map (conflictMessage (exampleTarget 8) afterA1B1 ?a) [?b]"
    by (simp add: eq conflictsWith_def)
  moreover from nobase have "map_of (m_dependents ?h') 2 = None" by (simp add: eq)
  moreover from kept have "map_of (m_dependents ?h') 1 = map_of (m_dependents afterA1B1) 1"
    by (simp add: afterA1B1_def)
  ultimately show ?thesis using DoEquivalenceSet_A2B1 by (intro conjI)
qed

section \<open>The dependency map is acyclic\<close>

lemma edges_emplace:
  "edges (emplace k v m)
     = (if map_of m k = None then insert (k, sao_symbol v) (edges m) else edges m)"
  by (auto simp: edges_def map_of_emplace split: option.splits if_splits)

lemma acyclic_edge_to_root:
  assumes "acyclic E" "b \<notin> Domain E" "s \<noteq> b"
  shows "acyclic (insert (s, b) E)"
proof -
  have "(b, s) \<notin> E\<^sup>*"
  proof
    assume "(b, s) \<in> E\<^sup>*"
    then show False using assms(2,3) by (cases rule: converse_rtranclE) auto
  qed
  with assms(1) show ?thesis by (simp add: acyclic_insert)
qed

lemma edges_Domain: "k \<in> Domain (edges deps) \<longleftrightarrow> map_of deps k \<noteq> None"
  by (auto simp: edges_def)

lemma recordDependents_acyclic:
  assumes "acyclic (edges (m_dependents h))" "map_of (m_dependents h) (sao_symbol base) = None"
  shows "acyclic (edges (m_dependents (recordDependents tc base h sos)))"
  using assms
proof (induction sos arbitrary: h)
  case Nil
  then show ?case by simp
next
  case (Cons so rest)
  show ?case
  proof (cases "sao_symbol so = sao_symbol base")
    case True
    then show ?thesis using Cons by simp
  next
    case False
    let ?deps = "emplace (sao_symbol so) (aliasOf base so) (m_dependents h)"
    have "acyclic (edges ?deps)"
    proof (cases "map_of (m_dependents h) (sao_symbol so)")
      case None
      have "acyclic (insert (sao_symbol so, sao_symbol base) (edges (m_dependents h)))"
        using Cons.prems False by (intro acyclic_edge_to_root) (simp_all add: edges_Domain)
      then show ?thesis using None by (simp only: edges_emplace aliasOf_def) simp
    next
      case (Some d)
      then show ?thesis using Cons.prems(1) by (simp only: edges_emplace) simp
    qed
    moreover have "map_of ?deps (sao_symbol base) = None"
      using Cons.prems(2) False by (simp add: map_of_emplace split: option.split)
    ultimately have "acyclic (edges (m_dependents
                        (recordDependents tc base (h\<lparr>m_dependents := ?deps\<rparr>) rest)))"
      by (intro Cons.IH) simp_all
    then show ?thesis using False by (simp add: aliasOf_def)
  qed
qed

lemma boundAt_returns: "lboundAt shp i \<noteq> Inl NoReturn" "uboundAt shp i \<noteq> Inl NoReturn"
  by (simp_all add: lboundAt_def uboundAt_def split: option.split)

lemma subscriptLoop_returns: "subscriptLoop shp subs i offset \<noteq> Inl NoReturn"
  by (induction i arbitrary: offset) (auto simp: boundAt_returns split: sum.split)

lemma ComputeOffset_returns: "ComputeOffset tc h object \<noteq> Inl NoReturn"
  by (auto simp: ComputeOffset_def Let_def subscriptLoop_returns split: sum.split option.split)

lemma resolveObjects_returns:
  assumes "acyclic (edges (m_dependents h))"
  shows "resolveObjects tc h objs sos rep \<noteq> Inl NoReturn"
proof (induction objs arbitrary: sos rep)
  case Nil
  then show ?case by simp
next
  case (Cons object rest)
  show ?case
  proof (cases "ComputeOffset tc h object")
    case (Inl e)
    then have "e \<noteq> NoReturn" using ComputeOffset_returns [of tc h object] by auto
    then show ?thesis using Inl by simp
  next
    case (Inr offset)
    obtain r where "Resolve (m_dependents h)
        \<lparr>sao_symbol = eo_symbol object, sao_offset = offset, sao_object = object\<rparr> = Some r"
      using Resolve_terminates [OF assms] by blast
    then show ?thesis using Inr Cons.IH by (simp add: Let_def)
  qed
qed

lemma DoEquivalenceSet_returns:
  assumes "acyclic (edges (m_dependents h))"
  shows "DoEquivalenceSet tc h eqset \<noteq> Inl NoReturn"
  using resolveObjects_returns [OF assms, of tc eqset "[]" None]
  by (auto simp: DoEquivalenceSet_def split: sum.split option.split)

lemma DoEquivalenceSet_acyclic:
  assumes "DoEquivalenceSet tc h eqset = Inr h'" "acyclic (edges (m_dependents h))"
  shows "acyclic (edges (m_dependents h'))"
proof -
  from assms(1) obtain sos r where
    res: "list_all2 (resolvesTo tc h) eqset sos"
    and mx: "lastMaximal sos (Some r)"
    and h': "h' = recordDependents tc (sos ! r) h sos"
    by (rule DoEquivalenceSet_result)
  have "r < length sos" using mx by (simp add: lastMaximal_def)
  then have "resolvesTo tc h (eqset ! r) (sos ! r)"
    using res by (simp add: list_all2_conv_all_nth)
  then have "map_of (m_dependents h) (sao_symbol (sos ! r)) = None" by (rule resolvesTo_root)
  with assms(2) show ?thesis unfolding h' by (rule recordDependents_acyclic)
qed

lemma DoEquivalenceSet_distinct:
  assumes "DoEquivalenceSet tc h eqset = Inr h'" "distinct (map fst (m_dependents h))"
  shows "distinct (map fst (m_dependents h'))"
proof -
  from assms(1) obtain sos r where "h' = recordDependents tc (sos ! r) h sos"
    by (rule DoEquivalenceSet_result)
  with assms(2) show ?thesis by (simp add: recordDependents_distinct)
qed

lemma DoEquivalenceSet_new_edges:
  assumes "DoEquivalenceSet tc h eqset = Inr h'"
    and "map_of (m_dependents h') k = Some d" "map_of (m_dependents h) k \<noteq> Some d"
  shows "k \<noteq> sao_symbol d \<and> map_of (m_dependents h') (sao_symbol d) = None"
proof -
  from assms(1) obtain sos r where
    res: "list_all2 (resolvesTo tc h) eqset sos"
    and mx: "lastMaximal sos (Some r)"
    and h': "h' = recordDependents tc (sos ! r) h sos"
    by (rule DoEquivalenceSet_result)
  have "r < length sos" using mx by (simp add: lastMaximal_def)
  then have "resolvesTo tc h (eqset ! r) (sos ! r)"
    using res by (simp add: list_all2_conv_all_nth)
  then have root: "map_of (m_dependents h) (sao_symbol (sos ! r)) = None" by (rule resolvesTo_root)
  have none: "map_of (m_dependents h) k = None"
    using assms(2,3) by (cases "map_of (m_dependents h) k") (simp_all add: h' recordDependents_map_of)
  with assms(2) have k: "k \<noteq> sao_symbol (sos ! r)"
    and d: "map_option (aliasOf (sos ! r)) (List.find (\<lambda>so. sao_symbol so = k) sos) = Some d"
    by (auto simp: h' recordDependents_map_of split: if_splits)
  from d have "sao_symbol d = sao_symbol (sos ! r)" by (auto simp: aliasOf_def)
  moreover have "map_of (m_dependents h') (sao_symbol (sos ! r)) = None"
    using root by (simp add: h' recordDependents_map_of)
  ultimately show ?thesis using k by simp
qed

lemma buildDependents_invariant:
  assumes "acyclic (edges (m_dependents h))" "distinct (map fst (m_dependents h))"
  shows "buildDependents tc h sets \<noteq> Inl NoReturn"
    and "buildDependents tc h sets = Inr h1 \<Longrightarrow>
           acyclic (edges (m_dependents h1)) \<and> distinct (map fst (m_dependents h1))"
  using assms
proof (induction sets arbitrary: h)
  case Nil
  { case 1 show ?case by simp }
  { case 2 then show ?case by simp }
next
  case (Cons eqset rest)
  { case 1
    show ?case
    proof (cases "DoEquivalenceSet tc h eqset")
      case (Inl e)
      then have "e \<noteq> NoReturn" using DoEquivalenceSet_returns [OF 1(1), of tc eqset] by auto
      then show ?thesis using Inl by simp
    next
      case (Inr h')
      then show ?thesis
        using Cons.IH(1) [of h'] DoEquivalenceSet_acyclic [OF Inr 1(1)]
          DoEquivalenceSet_distinct [OF Inr 1(2)] by simp
    qed }
  { case 2
    then obtain h' where h': "DoEquivalenceSet tc h eqset = Inr h'"
      and rest: "buildDependents tc h' rest = Inr h1"
      by (auto split: sum.splits)
    show ?case
      using Cons.IH(2) [OF rest] DoEquivalenceSet_acyclic [OF h' 2(2)]
        DoEquivalenceSet_distinct [OF h' 2(3)] by simp }
qed


lemma resolveDependent_Inr:
  assumes "resolveDependent tc h symbol dep = Inr h'"
  obtains r where "Resolve (m_dependents h) dep = Some r"
    "m_dependents h' = assign symbol r (m_dependents h)"
proof -
  from assms obtain r where r: "Resolve (m_dependents h) dep = Some r"
    by (auto simp: resolveDependent_def split: option.splits)
  with assms have "m_dependents h' = assign symbol r (m_dependents h)"
    by (auto simp: resolveDependent_def Let_def set_size_def split: if_splits option.splits)
  with r show ?thesis by (rule that)
qed

lemma ComputeOffset_cong:
  "symbolAt h' = symbolAt h \<Longrightarrow> ComputeOffset tc h' object = ComputeOffset tc h object"
  by (simp add: ComputeOffset_def)

lemma acyclic_compress:
  assumes "acyclic (edges deps)" "map_of deps k = Some d" "Resolve deps d = Some r"
  shows "acyclic (edges (assign k r deps))"
proof -
  have "(k, sao_symbol d) \<in> edges deps" using assms(2) by (auto simp: edges_def)
  moreover have "(sao_symbol d, sao_symbol r) \<in> (edges deps)\<^sup>*"
    using assms(3) by (rule Resolve_path)
  ultimately have "(k, sao_symbol r) \<in> (edges deps)\<^sup>+" by simp
  moreover have "edges (assign k r deps) \<subseteq> insert (k, sao_symbol r) (edges deps)"
    using assms(2) by (auto simp: edges_def map_of_assign split: if_splits)
  ultimately have "edges (assign k r deps) \<subseteq> (edges deps)\<^sup>+" by auto
  moreover have "acyclic ((edges deps)\<^sup>+)" using assms(1) by (simp add: acyclic_def)
  ultimately show ?thesis by (rule acyclic_subset [rotated])
qed

lemma Resolve_compress:
  assumes acyc: "acyclic (edges deps)" and k: "map_of deps k = Some d"
    and r: "Resolve deps d = Some r"
  shows "Resolve (assign k r deps) x = Resolve deps x"
proof -
  let ?deps' = "assign k r deps"
  have new: "map_of ?deps' = (map_of deps)(k \<mapsto> r)"
    using k by (simp add: map_of_assign)
  have root: "map_of deps (sao_symbol r) = None" using r by (rule Resolve_root)
  then have rne: "sao_symbol r \<noteq> k" using k by auto
  have r': "Resolve ?deps' r = Some r"
    using root rne by (subst Resolve.simps) (simp add: new)
  have "wf ((edges deps)\<inverse>)"
    using acyc finite_edges by (simp add: finite_acyclic_wf_converse)
  then show ?thesis
  proof (induction "sao_symbol x" arbitrary: x rule: wf_induct_rule)
    case less
    show ?case
    proof (cases "sao_symbol x = k")
      case True
      have "Resolve ?deps' x
              = Some (r\<lparr>sao_offset := sao_offset r + sao_offset x, sao_object := sao_object x\<rparr>)"
        using True r' by (subst Resolve.simps) (simp add: new)
      moreover have "Resolve deps x
              = Some (r\<lparr>sao_offset := sao_offset r + sao_offset x, sao_object := sao_object x\<rparr>)"
        using True k r by (subst Resolve.simps) simp
      ultimately show ?thesis by simp
    next
      case False
      show ?thesis
      proof (cases "map_of deps (sao_symbol x)")
        case None
        then have "Resolve deps x = Some x" by (subst Resolve.simps) simp
        moreover have "Resolve ?deps' x = Some x"
          using None False by (subst Resolve.simps) (simp add: new)
        ultimately show ?thesis by simp
      next
        case (Some nxt)
        then have "(sao_symbol nxt, sao_symbol x) \<in> (edges deps)\<inverse>" by (auto simp: edges_def)
        then have IH: "Resolve ?deps' nxt = Resolve deps nxt" by (rule less)
        have "Resolve ?deps' x
                = Option.bind (Resolve ?deps' nxt)
                    (\<lambda>result. Some (result\<lparr>sao_offset := sao_offset result + sao_offset x,
                                           sao_object := sao_object x\<rparr>))"
          using Some False by (subst Resolve.simps) (simp add: new)
        moreover have "Resolve deps x
                = Option.bind (Resolve deps nxt)
                    (\<lambda>result. Some (result\<lparr>sao_offset := sao_offset result + sao_offset x,
                                           sao_object := sao_object x\<rparr>))"
          using Some by (subst Resolve.simps) simp
        ultimately show ?thesis using IH by simp
      qed
    qed
  qed
qed

lemma resolveDependent_succeeds:
  assumes "Resolve (m_dependents h) dep = Some r" "sym_size (symbolAt h symbol) = 0"
  shows "\<exists>h'. resolveDependent tc h symbol dep = Inr h'"
  using assms by (simp add: resolveDependent_def Let_def symbolAt_def)

lemma resolveDependent_sizes:
  assumes "resolveDependent tc h symbol dep = Inr h'" "s \<noteq> symbol"
  shows "symbolAt h' s = symbolAt h s"
  using assms
  by (auto simp: resolveDependent_def Let_def set_size_def symbolAt_def updateSymbol_def
      split: option.splits if_splits)


lemma resolveDependents_resolved:
  assumes "\<forall>(k, d) \<in> set todo. map_of (m_dependents h) k = Some d"
    and "distinct (map fst todo)"
    and "acyclic (edges (m_dependents h))"
  shows "resolveDependents tc h todo = Inr h2 \<Longrightarrow>
           map fst (m_dependents h2) = map fst (m_dependents h)
           \<and> (\<forall>x. Resolve (m_dependents h2) x = Resolve (m_dependents h) x)
           \<and> (\<forall>(k, d) \<in> set todo. map_of (m_dependents h2) k = Resolve (m_dependents h) d)
           \<and> (\<forall>k. k \<notin> fst ` set todo \<longrightarrow> map_of (m_dependents h2) k = map_of (m_dependents h) k)"
    and "\<forall>(k, d) \<in> set todo. sym_size (symbolAt h k) = 0 \<Longrightarrow>
           \<exists>h2. resolveDependents tc h todo = Inr h2"
  using assms
proof (induction todo arbitrary: h)
  case Nil
  { case 1 then show ?case by simp }
  { case 2 show ?case by simp }
next
  case (Cons entry rest)
  obtain symbol dep where entry: "entry = (symbol, dep)" by (cases entry)
  have step: "(\<forall>(k, d) \<in> set rest. map_of (m_dependents h') k = Some d)
              \<and> distinct (map fst rest)
              \<and> acyclic (edges (m_dependents h'))
              \<and> map fst (m_dependents h') = map fst (m_dependents h)
              \<and> (\<forall>x. Resolve (m_dependents h') x = Resolve (m_dependents h) x)
              \<and> map_of (m_dependents h') = (map_of (m_dependents h))(symbol \<mapsto> r)"
    if run: "resolveDependent tc h symbol dep = Inr h'"
      and r: "Resolve (m_dependents h) dep = Some r"
      and todo: "\<forall>(k, d) \<in> set (entry # rest). map_of (m_dependents h) k = Some d"
      and dist: "distinct (map fst (entry # rest))"
      and acyc: "acyclic (edges (m_dependents h))"
    for h h' r
  proof -
    from run r have deps': "m_dependents h' = assign symbol r (m_dependents h)"
      by (auto elim!: resolveDependent_Inr)
    have cur: "map_of (m_dependents h) symbol = Some dep" using todo entry by simp
    have new: "map_of (m_dependents h') = (map_of (m_dependents h))(symbol \<mapsto> r)"
      using cur by (simp add: deps' map_of_assign)
    have 1: "\<forall>(k, d) \<in> set rest. map_of (m_dependents h') k = Some d"
    proof (intro ballI, clarify)
      fix k d assume kd: "(k, d) \<in> set rest"
      then have "k \<in> fst ` set rest" by force
      then have "k \<noteq> symbol" using dist entry by auto
      moreover have "map_of (m_dependents h) k = Some d" using todo kd by auto
      ultimately show "map_of (m_dependents h') k = Some d" by (simp add: new)
    qed
    have 2: "distinct (map fst rest)" using dist by simp
    have 3: "acyclic (edges (m_dependents h'))"
      unfolding deps' using acyc cur r by (rule acyclic_compress)
    have 4: "map fst (m_dependents h') = map fst (m_dependents h)" by (simp add: deps')
    have 5: "Resolve (m_dependents h') x = Resolve (m_dependents h) x" for x
      unfolding deps' using acyc cur r by (rule Resolve_compress)
    show ?thesis using 1 2 3 4 5 new by blast
  qed
  { case 1
    then obtain h' where h': "resolveDependent tc h symbol dep = Inr h'"
      and rest: "resolveDependents tc h' rest = Inr h2"
      using entry by (auto split: sum.splits)
    from h' obtain r where r: "Resolve (m_dependents h) dep = Some r"
      by (rule resolveDependent_Inr)
    note s = step [OF h' r 1(2,3,4)]
    from s have s1: "\<forall>(k, d) \<in> set rest. map_of (m_dependents h') k = Some d"
      and s2: "distinct (map fst rest)" and s3: "acyclic (edges (m_dependents h'))"
      and s4: "map fst (m_dependents h') = map fst (m_dependents h)"
      and s5: "\<And>x. Resolve (m_dependents h') x = Resolve (m_dependents h) x"
      and s6: "map_of (m_dependents h') = (map_of (m_dependents h))(symbol \<mapsto> r)"
      by blast+
    note IH = Cons.IH(1) [OF rest s1 s2 s3]
    have notin: "symbol \<notin> fst ` set rest" using 1(3) entry by auto
    have a: "map fst (m_dependents h2) = map fst (m_dependents h)" using IH s4 by simp
    have b: "\<forall>x. Resolve (m_dependents h2) x = Resolve (m_dependents h) x" using IH s5 by simp
    have c: "\<forall>(k, d) \<in> set (entry # rest). map_of (m_dependents h2) k = Resolve (m_dependents h) d"
    proof (intro ballI, clarify)
      fix k d assume "(k, d) \<in> set (entry # rest)"
      then consider "k = symbol" "d = dep" | "(k, d) \<in> set rest" using entry by auto
      then show "map_of (m_dependents h2) k = Resolve (m_dependents h) d"
      proof cases
        case 1
        have "map_of (m_dependents h2) symbol = map_of (m_dependents h') symbol"
          using IH notin by blast
        then show ?thesis using 1 s6 r by simp
      next
        case 2
        then have "map_of (m_dependents h2) k = Resolve (m_dependents h') d" using IH by blast
        then show ?thesis using s5 by simp
      qed
    qed
    have d: "\<forall>k. k \<notin> fst ` set (entry # rest) \<longrightarrow> map_of (m_dependents h2) k = map_of (m_dependents h) k"
    proof (intro allI impI)
      fix k assume k: "k \<notin> fst ` set (entry # rest)"
      then have "k \<noteq> symbol" "k \<notin> fst ` set rest" using entry by auto
      then have "map_of (m_dependents h2) k = map_of (m_dependents h') k" using IH by blast
      then show "map_of (m_dependents h2) k = map_of (m_dependents h) k"
        using \<open>k \<noteq> symbol\<close> by (simp add: s6)
    qed
    show ?case using a b c d by blast }
  { case 2
    obtain r where r: "Resolve (m_dependents h) dep = Some r"
      using Resolve_terminates [OF 2(4)] by blast
    have "sym_size (symbolAt h symbol) = 0" using 2(1) entry by simp
    with r obtain h' where h': "resolveDependent tc h symbol dep = Inr h'"
      using resolveDependent_succeeds by blast
    note s = step [OF h' r 2(2,3,4)]
    from s have s1: "\<forall>(k, d) \<in> set rest. map_of (m_dependents h') k = Some d"
      and s2: "distinct (map fst rest)" and s3: "acyclic (edges (m_dependents h'))"
      by blast+
    have sizes: "\<forall>(k, d) \<in> set rest. sym_size (symbolAt h' k) = 0"
    proof (intro ballI, clarify)
      fix k d assume kd: "(k, d) \<in> set rest"
      then have "k \<in> fst ` set rest" by force
      then have "k \<noteq> symbol" using 2(3) entry by auto
      then have "symbolAt h' k = symbolAt h k" using h' by (rule resolveDependent_sizes [rotated])
      then show "sym_size (symbolAt h' k) = 0" using 2(1) kd by auto
    qed
    from Cons.IH(2) [OF sizes s1 s2 s3] obtain h2 where "resolveDependents tc h' rest = Inr h2"
      by blast
    then show ?case using h' entry by simp }
qed

lemma DoEquivalenceSet_symbols:
  assumes "DoEquivalenceSet tc h eqset = Inr h'"
  shows "symbolAt h' = symbolAt h"
proof -
  from assms obtain sos r where "h' = recordDependents tc (sos ! r) h sos"
    by (rule DoEquivalenceSet_result)
  then show ?thesis by (simp add: symbolAt_def fun_eq_iff recordDependents_frame)
qed

lemma resolveObjects_succeeds:
  assumes "acyclic (edges (m_dependents h))"
    and "\<forall>object \<in> set objs. \<exists>offset. ComputeOffset tc h object = Inr offset"
  shows "\<exists>sos' rep'. resolveObjects tc h objs sos rep = Inr (sos', rep')
           \<and> (objs \<noteq> [] \<or> rep \<noteq> None \<longrightarrow> rep' \<noteq> None)"
  using assms(2)
proof (induction objs arbitrary: sos rep)
  case Nil
  then show ?case by simp
next
  case (Cons object rest)
  from Cons.prems obtain offset where off: "ComputeOffset tc h object = Inr offset" by auto
  obtain r where r: "Resolve (m_dependents h)
        \<lparr>sao_symbol = eo_symbol object, sao_offset = offset, sao_object = object\<rparr> = Some r"
    using Resolve_terminates [OF assms(1)] by blast
  have rest: "\<forall>object \<in> set rest. \<exists>offset. ComputeOffset tc h object = Inr offset"
    using Cons.prems by simp
  let ?rep = "(case rep of
                    None \<Rightarrow> Some (length (sos @ [r]) - 1)
                  | Some r0 \<Rightarrow>
                      if sao_offset ((sos @ [r]) ! r0) \<le> sao_offset r
                      then Some (length (sos @ [r]) - 1) else Some r0)"
  have "?rep \<noteq> None" by (simp split: option.split)
  with Cons.IH [OF rest, of "sos @ [r]" ?rep]
  show ?case using off r by (simp add: Let_def)
qed

lemma DoEquivalenceSet_succeeds:
  assumes "acyclic (edges (m_dependents h))" "eqset \<noteq> []"
    and "\<forall>object \<in> set eqset. \<exists>offset. ComputeOffset tc h object = Inr offset"
  shows "\<exists>h'. DoEquivalenceSet tc h eqset = Inr h'"
proof -
  from resolveObjects_succeeds [OF assms(1,3), of "[]" None] assms(2)
  obtain sos' r where "resolveObjects tc h eqset [] None = Inr (sos', Some r)" by auto
  then show ?thesis by (simp add: DoEquivalenceSet_def)
qed

lemma buildDependents_succeeds:
  assumes "acyclic (edges (m_dependents h))"
    and "\<forall>eqset \<in> set sets. eqset \<noteq> []
            \<and> (\<forall>object \<in> set eqset. \<exists>offset. ComputeOffset tc h object = Inr offset)"
  shows "\<exists>h1. buildDependents tc h sets = Inr h1"
  using assms
proof (induction sets arbitrary: h)
  case Nil
  then show ?case by simp
next
  case (Cons eqset rest)
  have "eqset \<noteq> []" "\<forall>object \<in> set eqset. \<exists>offset. ComputeOffset tc h object = Inr offset"
    using Cons.prems(2) by simp_all
  with Cons.prems(1) obtain h' where h': "DoEquivalenceSet tc h eqset = Inr h'"
    using DoEquivalenceSet_succeeds by blast
  have acyc: "acyclic (edges (m_dependents h'))"
    using h' Cons.prems(1) by (rule DoEquivalenceSet_acyclic)
  have same: "ComputeOffset tc h' object = ComputeOffset tc h object" for object
    using DoEquivalenceSet_symbols [OF h'] by (rule ComputeOffset_cong)
  have "\<forall>eqset \<in> set rest. eqset \<noteq> []
            \<and> (\<forall>object \<in> set eqset. \<exists>offset. ComputeOffset tc h' object = Inr offset)"
    using Cons.prems(2) by (simp add: same)
  from Cons.IH [OF acyc this] show ?case using h' by simp
qed


lemmas chain_defs = exampleTarget_def newHelper_def contextOf_def arraysACE_def symbolAt_def
  objectSymbol_def scalarSymbol_def elementObject_def setsChain_def

lemma buildDependents_setsChain:
  "buildDependents (exampleTarget 8) (newHelper (contextOf arraysACE)) setsChain = Inr chainBuilt"
  by (simp add: chain_defs chainBuilt_def DoEquivalenceSet_def ComputeOffset_def
        GetSizeAndAlignment_def Resolve.simps lboundAt_def uboundAt_def emplace_def)

lemma resolveDependents_chainBuilt:
  "resolveDependents (exampleTarget 8) chainBuilt (m_dependents chainBuilt) = Inr chainResolved"
  by (simp add: chain_defs chainBuilt_def chainResolved_def resolveDependent_def Let_def
        Resolve.simps GetSizeAndAlignment_def set_size_def updateSymbol_def emplace_def fun_eq_iff)

text \<open>
  C10: starting from the empty dependency map of a fresh helper, the loop over the
  equivalence sets of a scope never fails to return, and it returns a helper whenever no
  set is empty and \<open>ComputeOffset\<close> gives an offset for every object. When it returns,
  the map is acyclic and \<open>Resolve\<close> returns on every argument, so on every entry. The
  resolution loop of lines 153 to 169 then returns a helper whenever the \<open>CHECK\<close> of line
  155 holds for the symbols of the map, and when it returns the map has the same symbols,
  and the entry of each symbol is what \<open>Resolve\<close> gave for its entry before the loop: a
  base that has no entry itself, and the offset from that base. Every edge that
  \<open>DoEquivalenceSet\<close> records goes from a symbol to a different symbol that has no entry
  once the set is processed.
\<close>

theorem dependents_acyclic:
  assumes "m_dependents h = []"
  shows "buildDependents tc h sets \<noteq> Inl NoReturn
       \<and> ((\<forall>eqset \<in> set sets. eqset \<noteq> []
              \<and> (\<forall>object \<in> set eqset. \<not> isl (ComputeOffset tc h object)))
            \<longrightarrow> (\<exists>h1. buildDependents tc h sets = Inr h1))
       \<and> (\<forall>h1. buildDependents tc h sets = Inr h1 \<longrightarrow>
             acyclic (edges (m_dependents h1))
           \<and> (\<forall>dep. \<exists>r. Resolve (m_dependents h1) dep = Some r)
           \<and> ((\<forall>(k, d) \<in> set (m_dependents h1). sym_size (symbolAt h1 k) = 0)
                \<longrightarrow> (\<exists>h2. resolveDependents tc h1 (m_dependents h1) = Inr h2))
           \<and> (\<forall>h2. resolveDependents tc h1 (m_dependents h1) = Inr h2 \<longrightarrow>
                 map fst (m_dependents h2) = map fst (m_dependents h1)
               \<and> (\<forall>(k, d) \<in> set (m_dependents h1).
                     \<exists>r. Resolve (m_dependents h1) d = Some r
                       \<and> map_of (m_dependents h2) k = Some r
                       \<and> map_of (m_dependents h2) (sao_symbol r) = None)))
       \<and> (\<forall>h0 eqset h0' k d.
             DoEquivalenceSet tc h0 eqset = Inr h0'
             \<longrightarrow> map_of (m_dependents h0') k = Some d
             \<longrightarrow> map_of (m_dependents h0) k \<noteq> Some d
             \<longrightarrow> k \<noteq> sao_symbol d \<and> map_of (m_dependents h0') (sao_symbol d) = None)"
proof -
  have start: "acyclic (edges (m_dependents h))" "distinct (map fst (m_dependents h))"
    using assms by (simp_all add: edges_def acyclic_def)
  have build: "buildDependents tc h sets \<noteq> Inl NoReturn"
    using start by (rule buildDependents_invariant(1))
  have total: "\<exists>h1. buildDependents tc h sets = Inr h1"
    if "\<forall>eqset \<in> set sets. eqset \<noteq> []
          \<and> (\<forall>object \<in> set eqset. \<not> isl (ComputeOffset tc h object))"
  proof -
    have "\<exists>offset. ComputeOffset tc h object = Inr offset" if "\<not> isl (ComputeOffset tc h object)"
      for object
      using that by (cases "ComputeOffset tc h object") simp_all
    with that have "\<forall>eqset \<in> set sets. eqset \<noteq> []
          \<and> (\<forall>object \<in> set eqset. \<exists>offset. ComputeOffset tc h object = Inr offset)"
      by blast
    with start(1) show ?thesis by (rule buildDependents_succeeds)
  qed
  have after: "acyclic (edges (m_dependents h1))
           \<and> (\<forall>dep. \<exists>r. Resolve (m_dependents h1) dep = Some r)
           \<and> ((\<forall>(k, d) \<in> set (m_dependents h1). sym_size (symbolAt h1 k) = 0)
                \<longrightarrow> (\<exists>h2. resolveDependents tc h1 (m_dependents h1) = Inr h2))
           \<and> (\<forall>h2. resolveDependents tc h1 (m_dependents h1) = Inr h2 \<longrightarrow>
                 map fst (m_dependents h2) = map fst (m_dependents h1)
               \<and> (\<forall>(k, d) \<in> set (m_dependents h1).
                     \<exists>r. Resolve (m_dependents h1) d = Some r
                       \<and> map_of (m_dependents h2) k = Some r
                       \<and> map_of (m_dependents h2) (sao_symbol r) = None))"
    if run: "buildDependents tc h sets = Inr h1" for h1
  proof -
    from buildDependents_invariant(2) [OF start run]
    have acyc: "acyclic (edges (m_dependents h1))"
      and dist: "distinct (map fst (m_dependents h1))"
      by simp_all
    have entries: "\<forall>(k, d) \<in> set (m_dependents h1). map_of (m_dependents h1) k = Some d"
      using dist by auto
    have returns: "\<forall>dep. \<exists>r. Resolve (m_dependents h1) dep = Some r"
      using Resolve_terminates [OF acyc] by blast
    have pass: "\<exists>h2. resolveDependents tc h1 (m_dependents h1) = Inr h2"
      if "\<forall>(k, d) \<in> set (m_dependents h1). sym_size (symbolAt h1 k) = 0"
      using entries dist acyc that by (rule resolveDependents_resolved(2))
    have resolved: "map fst (m_dependents h2) = map fst (m_dependents h1)
               \<and> (\<forall>(k, d) \<in> set (m_dependents h1).
                     \<exists>r. Resolve (m_dependents h1) d = Some r
                       \<and> map_of (m_dependents h2) k = Some r
                       \<and> map_of (m_dependents h2) (sao_symbol r) = None)"
      if pass: "resolveDependents tc h1 (m_dependents h1) = Inr h2" for h2
    proof -
      from resolveDependents_resolved(1) [OF entries dist acyc pass]
      have keys: "map fst (m_dependents h2) = map fst (m_dependents h1)"
        and same: "\<And>x. Resolve (m_dependents h2) x = Resolve (m_dependents h1) x"
        and each: "\<And>k d. (k, d) \<in> set (m_dependents h1)
                      \<Longrightarrow> map_of (m_dependents h2) k = Resolve (m_dependents h1) d"
        by blast+
      have "\<exists>r. Resolve (m_dependents h1) d = Some r
              \<and> map_of (m_dependents h2) k = Some r
              \<and> map_of (m_dependents h2) (sao_symbol r) = None"
        if kd: "(k, d) \<in> set (m_dependents h1)" for k d
      proof -
        obtain r where r: "Resolve (m_dependents h1) d = Some r" using returns by blast
        then have "Resolve (m_dependents h2) d = Some r" by (simp add: same)
        then have "map_of (m_dependents h2) (sao_symbol r) = None" by (rule Resolve_root)
        with r each [OF kd] show ?thesis by simp
      qed
      with keys show ?thesis by blast
    qed
    show ?thesis using acyc returns pass resolved by blast
  qed
  show ?thesis
    using build total after DoEquivalenceSet_new_edges by blast
qed

theorem dependents_acyclic_witness:
  "m_dependents (newHelper (contextOf arraysACE)) = []
   \<and> buildDependents (exampleTarget 8) (newHelper (contextOf arraysACE)) setsChain = Inr chainBuilt
   \<and> acyclic (edges (m_dependents chainBuilt))
   \<and> map fst (m_dependents chainBuilt) = [2, 3]
   \<and> sym_size (symbolAt chainBuilt 2) = 0 \<and> sym_size (symbolAt chainBuilt 3) = 0
   \<and> resolveDependents (exampleTarget 8) chainBuilt (m_dependents chainBuilt) = Inr chainResolved
   \<and> Resolve (m_dependents chainBuilt)
        \<lparr>sao_symbol = 2, sao_offset = 4, sao_object = elementObject 3 [1] ''e(1)''\<rparr>
      = Some \<lparr>sao_symbol = 1, sao_offset = 8, sao_object = elementObject 3 [1] ''e(1)''\<rparr>
   \<and> map_of (m_dependents chainResolved) 3
      = Some \<lparr>sao_symbol = 1, sao_offset = 8, sao_object = elementObject 3 [1] ''e(1)''\<rparr>
   \<and> map_of (m_dependents chainResolved) 1 = None"
proof -
  let ?e = "\<lparr>sao_symbol = 2, sao_offset = 4, sao_object = elementObject 3 [1] ''e(1)''\<rparr>"
  have empty: "m_dependents (newHelper (contextOf arraysACE)) = []"
    by (simp add: newHelper_def)
  have sizes: "map fst (m_dependents chainBuilt) = [2, 3]"
    "sym_size (symbolAt chainBuilt 2) = 0" "sym_size (symbolAt chainBuilt 3) = 0"
    by (simp_all add: chainBuilt_def chain_defs)
  have entry: "(3, ?e) \<in> set (m_dependents chainBuilt)" by (simp add: chainBuilt_def)
  have final: "Resolve (m_dependents chainBuilt) ?e
      = Some \<lparr>sao_symbol = 1, sao_offset = 8, sao_object = elementObject 3 [1] ''e(1)''\<rparr>"
    by (simp add: chainBuilt_def Resolve.simps)
  from dependents_acyclic [OF empty, of "exampleTarget 8" setsChain]
  have acyc: "acyclic (edges (m_dependents chainBuilt))"
    and each: "\<forall>(k, d) \<in> set (m_dependents chainBuilt).
                 \<exists>r. Resolve (m_dependents chainBuilt) d = Some r
                   \<and> map_of (m_dependents chainResolved) k = Some r
                   \<and> map_of (m_dependents chainResolved) (sao_symbol r) = None"
    using buildDependents_setsChain resolveDependents_chainBuilt by blast+
  from each entry have "\<exists>r. Resolve (m_dependents chainBuilt) ?e = Some r
                   \<and> map_of (m_dependents chainResolved) 3 = Some r
                   \<and> map_of (m_dependents chainResolved) (sao_symbol r) = None"
    by blast
  then have "map_of (m_dependents chainResolved) 3
      = Some \<lparr>sao_symbol = 1, sao_offset = 8, sao_object = elementObject 3 [1] ''e(1)''\<rparr>"
    "map_of (m_dependents chainResolved) 1 = None"
    using final by auto
  with empty buildDependents_setsChain acyc sizes resolveDependents_chainBuilt final
  show ?thesis by (intro conjI)
qed

section \<open>Scopes\<close>

lemma helper_context_same [simp]: "h\<lparr>m_context := m_context h\<rparr> = h"
  by simp

lemma settled_noop:
  "settled scope \<Longrightarrow> Compute tc h scope = Inr (h, scope)"
  "settled scope \<Longrightarrow> ComputeOffsets tc ctx scope = Inr (ctx, scope)"
  "\<forall>child \<in> set chn. settled child \<Longrightarrow> computeChildren tc ctx chn = Inr (ctx, chn)"
proof (induction tc h scope and tc ctx scope and tc ctx chn
       rule: Compute_ComputeOffsets_computeChildren.induct)
  case (1 tc h hs pdt k al sz eqs syms cbs chn)
  then show ?case by (auto simp: Let_def)
next
  case (2 tc ctx scope)
  then show ?case by (simp add: newHelper_def)
next
  case (3 tc ctx)
  then show ?case by simp
next
  case (4 tc ctx child rest)
  then show ?case by simp
qed


lemma SetAlignment_simps [simp]:
  "SetAlignment a (Scope hs pdt k al sz eqs syms cbs chn) = Scope hs pdt k (Some a) sz eqs syms cbs chn"
  by (simp add: SetAlignment_def)

lemma set_scope_size_simps [simp]:
  "set_scope_size n (Scope hs pdt k al sz eqs syms cbs chn) = Scope hs pdt k al n eqs syms cbs chn"
  by (simp add: set_scope_size_def)

lemma layoutScope_scope:
  assumes "layoutScope tc h (Scope hs pdt k al sz eqs syms cbs chn) = Inr (h', scope')"
  shows "\<exists>off a. scope' = Scope hs pdt k (Some a) (Align tc off a) eqs syms cbs chn"
  using assms
  by (auto simp: layoutScope_def Let_def split: sum.splits if_splits)

lemma Compute_settles:
  "Compute tc h scope = Inr (h', scope') \<Longrightarrow> settled scope'"
  "ComputeOffsets tc ctx scope = Inr (ctx', scope') \<Longrightarrow> settled scope'"
  "computeChildren tc ctx chn = Inr (ctx', chn') \<Longrightarrow> \<forall>child \<in> set chn'. settled child"
proof (induction tc h scope and tc ctx scope and tc ctx chn
       arbitrary: h' scope' and ctx' scope' and ctx' chn'
       rule: Compute_ComputeOffsets_computeChildren.induct)
  case (1 tc h hs pdt k al sz eqs syms cbs chn)
  from "1.prems" obtain ctx1 chn1 where
    kids: "computeChildren tc (m_context h) chn = Inr (ctx1, chn1)"
    by (auto split: sum.splits)
  then have set1: "\<forall>child \<in> set chn1. settled child" by (rule "1.IH")
  show ?case
  proof (cases "(hs \<and> pdt) \<or> al \<noteq> None")
    case True
    then have "scope' = Scope hs pdt k al sz eqs syms cbs chn1"
      using "1.prems" kids by (auto simp: Let_def split: if_splits)
    then show ?thesis using True set1 by auto
  next
    case False
    then have "layoutScope tc (h\<lparr>m_context := ctx1\<rparr>) (Scope hs pdt k al sz eqs syms cbs chn1)
                 = Inr (h', scope')"
      using "1.prems" kids by (auto simp: Let_def)
    then obtain off a where
      "scope' = Scope hs pdt k (Some a) (Align tc off a) eqs syms cbs chn1"
      using layoutScope_scope by blast
    then show ?thesis using set1 by simp
  qed
next
  case (2 tc ctx scope)
  then show ?case by (auto split: sum.splits)
next
  case (3 tc ctx)
  then show ?case by simp
next
  case (4 tc ctx child rest)
  from "4.prems" obtain ctx1 child1 ctx2 rest1 where
    a: "ComputeOffsets tc ctx child = Inr (ctx1, child1)"
    and b: "computeChildren tc ctx1 rest = Inr (ctx2, rest1)"
    and c: "chn' = child1 # rest1"
    by (auto split: sum.splits)
  have "settled child1" using a by (rule "4.IH"(1))
  moreover have "\<forall>child \<in> set rest1. settled child" using "4.IH"(2) [OF a refl b] .
  ultimately show ?case using c by simp
qed



lemmas scope_example_defs = exampleTarget_def contextOf_def quadAndInt_def quadAndIntPlaced_def
  quadAndIntScope_def scalarSymbol_def objectSymbol_def newHelper_def

lemmas layout_defs = layoutScope_def Let_def FindCommonBlockContaining_def DoSymbol_def
  GetSizeAndAlignment_def Align_def set_size_def set_offset_def updateSymbol_def symbolAt_def

lemma ComputeOffsets_quadAndInt_8:
  "ComputeOffsets (exampleTarget 8) (contextOf quadAndInt) quadAndIntScope
   = Inr (contextOf quadAndIntPlaced, Scope False False OtherKind (Some 16) 24 [] [1, 2] [] [])"
  by (simp add: scope_example_defs layout_defs fun_eq_iff)

lemma ComputeOffsets_quadAndInt_16:
  "ComputeOffsets (exampleTarget 16) (contextOf quadAndInt) quadAndIntScope
   = Inr (contextOf quadAndIntPlaced, Scope False False OtherKind (Some 16) 32 [] [1, 2] [] [])"
  by (simp add: scope_example_defs layout_defs fun_eq_iff)

lemma unat_pow2: "n < 64 \<Longrightarrow> unat (2 ^ n :: 64 word) = 2 ^ n"
proof -
  assume n: "n < 64"
  then have "(2::nat) ^ n < 2 ^ 64" by (intro power_strict_increasing) simp_all
  then have "(2::nat) ^ n mod 2 ^ 64 = 2 ^ n" by (rule mod_less)
  moreover have "(2 ^ n :: 64 word) = of_nat (2 ^ n)" by simp
  ultimately show ?thesis by (simp only: unat_of_nat len_of_numeral_defs) simp
qed

text \<open>
  C8: the code breaks the claim, which line 202 states as its purpose (``Ensure that the
  size is a multiple of the alignment''). \<open>Align\<close> rounds the size to the smaller of the
  alignment of the scope and the maximum alignment of the target, and line 205 records the
  alignment itself. A scope with a 16-byte real of alignment 16 and a 4-byte integer, on a
  target whose maximum alignment is 8, gets size 24 and alignment 16.
\<close>

theorem scope_size_not_multiple_of_alignment:
  "ComputeOffsets (exampleTarget 8) (contextOf quadAndInt) quadAndIntScope
     = Inr (contextOf quadAndIntPlaced, Scope False False OtherKind (Some 16) 24 [] [1, 2] [] [])
   \<and> \<not> unat (16 :: size_t) dvd unat (24 :: size_t)"
  using ComputeOffsets_quadAndInt_8 by simp

text \<open>
  Where the clamp of \<open>Align\<close> has no effect, line 202 does what it says: when
  \<open>ComputeOffsets\<close> returns for a scope that neither return of lines 140 to 145 applies
  to, the scope has an alignment, and its size is a multiple of the smaller of that
  alignment and the maximum alignment of the target whenever this is a power of two; so
  it is a multiple of the alignment of the scope when that is a power of two and does not
  exceed the maximum alignment of the target.
\<close>

lemma scope_size_multiple_within_maximum:
  assumes "ComputeOffsets tc ctx scope = Inr (ctx', scope')"
    and "\<not> (hasSymbol scope \<and> IsDerivedTypeWithKindParameter scope)"
    and "scope_alignment scope = None"
  shows "\<exists>a. scope_alignment scope' = Some a
           \<and> (\<forall>n < 64. min a (maxAlignment tc) = 2 ^ n \<longrightarrow> 2 ^ n dvd unat (scope_size scope'))
           \<and> (\<forall>n < 64. a = 2 ^ n \<longrightarrow> a \<le> maxAlignment tc
                 \<longrightarrow> unat a dvd unat (scope_size scope'))"
proof -
  obtain hs pdt k al sz eqs syms cbs chn where
    scope: "scope = Scope hs pdt k al sz eqs syms cbs chn"
    by (cases scope)
  from assms(1) obtain h' where run: "Compute tc (newHelper ctx) scope = Inr (h', scope')"
    by (auto split: sum.splits)
  from run obtain ctx1 chn1 where
    "layoutScope tc ((newHelper ctx)\<lparr>m_context := ctx1\<rparr>)
       (Scope hs pdt k al sz eqs syms cbs chn1) = Inr (h', scope')"
    using assms(2,3) by (auto simp: scope Let_def split: sum.splits if_splits)
  then obtain off a where
    scope': "scope' = Scope hs pdt k (Some a) (Align tc off a) eqs syms cbs chn1"
    using layoutScope_scope by blast
  have multiple: "2 ^ n dvd unat (Align tc off a)"
    if "n < 64" "min a (maxAlignment tc) = 2 ^ n" for n
    using that by (simp add: unat_Align_pow2)
  have "unat a dvd unat (Align tc off a)"
    if n: "n < 64" and a: "a = 2 ^ n" and le: "a \<le> maxAlignment tc" for n
  proof -
    have "min a (maxAlignment tc) = 2 ^ n" using a le by (simp add: min_def)
    with n have "2 ^ n dvd unat (Align tc off a)" by (rule multiple)
    then show ?thesis using n a by (simp add: unat_pow2)
  qed
  with multiple show ?thesis by (auto simp: scope')
qed

lemma scope_size_multiple_within_maximum_example:
  "ComputeOffsets (exampleTarget 16) (contextOf quadAndInt) quadAndIntScope
     = Inr (contextOf quadAndIntPlaced, Scope False False OtherKind (Some 16) 32 [] [1, 2] [] [])
   \<and> \<not> (hasSymbol quadAndIntScope \<and> IsDerivedTypeWithKindParameter quadAndIntScope)
   \<and> scope_alignment quadAndIntScope = None
   \<and> (16 :: size_t) = 2 ^ 4 \<and> 16 \<le> maxAlignment (exampleTarget 16)
   \<and> unat (16 :: size_t) dvd unat (32 :: size_t)"
proof -
  have guards: "\<not> (hasSymbol quadAndIntScope \<and> IsDerivedTypeWithKindParameter quadAndIntScope)"
    "scope_alignment quadAndIntScope = None"
    by (simp_all add: quadAndIntScope_def)
  from scope_size_multiple_within_maximum [OF ComputeOffsets_quadAndInt_16 guards]
  have "\<forall>n < 64. (16 :: size_t) = 2 ^ n \<longrightarrow> 16 \<le> maxAlignment (exampleTarget 16)
          \<longrightarrow> unat (16 :: size_t) dvd unat (32 :: size_t)"
    by simp
  from this [rule_format, of 4]
  have "unat (16 :: size_t) dvd unat (32 :: size_t)" by (simp add: exampleTarget_def)
  then show ?thesis
    using ComputeOffsets_quadAndInt_16 guards by (simp add: exampleTarget_def)
qed

lemma ComputeOffsets_processedParent:
  "ComputeOffsets (exampleTarget 8) (contextOf quadAndInt) processedParent
   = Inr (contextOf (quadAndInt (2 := (scalarSymbol 2 ''i'' 4 4)\<lparr>sym_size := 4, sym_offset := 0\<rparr>)),
          Scope False False OtherKind (Some 8) 8 [] [] []
            [Scope False False OtherKind (Some 4) 4 [] [2] [] [] ])"
  by (simp add: scope_example_defs processedParent_def layout_defs fun_eq_iff)

text \<open>
  C7, as the claim states it, fails: the loop over the children comes before both returns,
  so a scope that has an alignment recorded is not left without side effects when a scope
  below it was not processed. Here the child gets its size and alignment, and the symbol
  \<open>i\<close> its size.
\<close>

theorem guarded_scope_side_effects_counterexample:
  "scope_alignment processedParent = Some 8
   \<and> ComputeOffsets (exampleTarget 8) (contextOf quadAndInt) processedParent
       = Inr (contextOf (quadAndInt (2 := (scalarSymbol 2 ''i'' 4 4)
                                            \<lparr>sym_size := 4, sym_offset := 0\<rparr>)),
              Scope False False OtherKind (Some 8) 8 [] [] []
                [Scope False False OtherKind (Some 4) 4 [] [2] [] [] ])
   \<and> ComputeOffsets (exampleTarget 8) (contextOf quadAndInt) processedParent
       \<noteq> Inr (contextOf quadAndInt, processedParent)
   \<and> sym_size (quadAndInt 2) = 0
   \<and> sym_size ((quadAndInt (2 := (scalarSymbol 2 ''i'' 4 4)
                                   \<lparr>sym_size := 4, sym_offset := 0\<rparr>)) 2) = 4"
  unfolding ComputeOffsets_processedParent
  by (simp add: processedParent_def quadAndInt_def scalarSymbol_def objectSymbol_def)

text \<open>
  C7, amended: a second call of \<open>ComputeOffsets\<close> on the scope that a first call returned
  is a no-op, in whatever context: it returns the same context (symbols, common blocks and
  messages) and the same scope. On a scope that has an alignment recorded, or that is a
  derived type with a kind parameter, a call does what the loop over the children does and
  nothing else: the scope keeps its own size, alignment and everything but its children;
  and when the scope and all scopes below it are such scopes, the call changes nothing.
\<close>

theorem ComputeOffsets_second_call:
  "(ComputeOffsets tc ctx scope = Inr (ctx', scope')
      \<longrightarrow> (\<forall>ctx2. ComputeOffsets tc ctx2 scope' = Inr (ctx2, scope')))
   \<and> ((hasSymbol scope \<and> IsDerivedTypeWithKindParameter scope) \<or> scope_alignment scope \<noteq> None
      \<longrightarrow> ComputeOffsets tc ctx scope
            = (case computeChildren tc ctx (children scope) of
                 Inl e \<Rightarrow> Inl e
               | Inr (ctx1, chn1) \<Rightarrow> Inr (ctx1, withChildren chn1 scope)))
   \<and> (settled scope \<longrightarrow> ComputeOffsets tc ctx scope = Inr (ctx, scope))"
proof (intro conjI impI allI)
  fix ctx2
  assume "ComputeOffsets tc ctx scope = Inr (ctx', scope')"
  then have "settled scope'" by (rule Compute_settles(2))
  then show "ComputeOffsets tc ctx2 scope' = Inr (ctx2, scope')" by (rule settled_noop(2))
next
  assume guard: "(hasSymbol scope \<and> IsDerivedTypeWithKindParameter scope)
                 \<or> scope_alignment scope \<noteq> None"
  obtain hs pdt k al sz eqs syms cbs chn where
    scope: "scope = Scope hs pdt k al sz eqs syms cbs chn"
    by (cases scope)
  show "ComputeOffsets tc ctx scope
          = (case computeChildren tc ctx (children scope) of
               Inl e \<Rightarrow> Inl e
             | Inr (ctx1, chn1) \<Rightarrow> Inr (ctx1, withChildren chn1 scope))"
    using guard
    by (auto simp: scope newHelper_def withChildren_def Let_def split: sum.splits)
next
  assume "settled scope"
  then show "ComputeOffsets tc ctx scope = Inr (ctx, scope)" by (rule settled_noop(2))
qed

theorem ComputeOffsets_second_call_witness:
  "ComputeOffsets (exampleTarget 8) (contextOf quadAndInt) quadAndIntScope
     = Inr (contextOf quadAndIntPlaced, Scope False False OtherKind (Some 16) 24 [] [1, 2] [] [])
   \<and> ComputeOffsets (exampleTarget 8) (contextOf quadAndIntPlaced)
        (Scope False False OtherKind (Some 16) 24 [] [1, 2] [] [])
     = Inr (contextOf quadAndIntPlaced, Scope False False OtherKind (Some 16) 24 [] [1, 2] [] [])"
  using ComputeOffsets_second_call
          [of "exampleTarget 8" "contextOf quadAndInt" quadAndIntScope
              "contextOf quadAndIntPlaced"
              "Scope False False OtherKind (Some 16) 24 [] [1, 2] [] []"]
        ComputeOffsets_quadAndInt_8
  by blast

section \<open>The order of the equivalence sets\<close>































end
